theory Spec2Isabelle
  imports Complex_Main "HOL-Library.AList" "HOL-Library.Sublist"
begin

section \<open>Python values and string primitives\<close>

text \<open>
  A Python \<^verbatim>\<open>str\<close> is modelled as a \<^typ>\<open>string\<close> whose characters are the code
  points below 256. The fields of a ticket dictionary that the pipeline reads hold either a
  string or \<^verbatim>\<open>None\<close>; a dictionary is a map from keys to values, and
  \<^verbatim>\<open>d.get(k, default)\<close> is \<open>py_get\<close>.
\<close>

datatype pyval = PNone | PStr string

datatype py_error = TypeError | KeyError

type_synonym ticket = "string \<rightharpoonup> pyval"

definition py_get :: "ticket \<Rightarrow> string \<Rightarrow> pyval \<Rightarrow> pyval" where
  "py_get d k dflt = (case d k of None \<Rightarrow> dflt | Some v \<Rightarrow> v)"

text \<open>Truthiness of a value: \<^verbatim>\<open>None\<close> and the empty string are falsy.\<close>

fun truthy :: "pyval \<Rightarrow> bool" where
  "truthy PNone = False"
| "truthy (PStr s) = (s \<noteq> [])"

text \<open>\<^verbatim>\<open>str(v)\<close>, as an f-string formats a value.\<close>

fun py_str :: "pyval \<Rightarrow> string" where
  "py_str PNone = ''None''"
| "py_str (PStr s) = s"

text \<open>\<^verbatim>\<open>str.isspace\<close> on one character (code points below 256).\<close>

definition py_isspace :: "char \<Rightarrow> bool" where
  "py_isspace c = ((of_char c :: nat) \<in> {9, 10, 11, 12, 13, 28, 29, 30, 31, 32, 133, 160})"

text \<open>\<^verbatim>\<open>str.lower\<close>: A..Z and the upper-case letters of Latin-1 move up by 32.\<close>

definition lower_char :: "char \<Rightarrow> char" where
  "lower_char c =
     (let n = (of_char c :: nat)
      in if (65 \<le> n \<and> n \<le> 90) \<or> (192 \<le> n \<and> n \<le> 222 \<and> n \<noteq> 215)
         then char_of (n + 32) else c)"

definition py_lower :: "string \<Rightarrow> string" where
  "py_lower s = map lower_char s"

text \<open>\<^verbatim>\<open>kw in text\<close>: \<open>kw\<close> occurs as a contiguous substring of \<open>text\<close>.\<close>

fun py_in :: "string \<Rightarrow> string \<Rightarrow> bool" where
  "py_in kw [] = (kw = [])"
| "py_in kw (c # cs) = (prefix kw (c # cs) \<or> py_in kw cs)"

text \<open>\<^verbatim>\<open>sep.join(xs)\<close>.\<close>

fun py_join :: "string \<Rightarrow> string list \<Rightarrow> string" where
  "py_join sep [] = []"
| "py_join sep [x] = x"
| "py_join sep (x # y # ys) = x @ sep @ py_join sep (y # ys)"

text \<open>\<^verbatim>\<open>s.strip(chars)\<close> with the set of characters given as a predicate, and
  \<^verbatim>\<open>s.strip()\<close>, which strips whitespace.\<close>

definition strip_where :: "(char \<Rightarrow> bool) \<Rightarrow> string \<Rightarrow> string" where
  "strip_where P s = rev (dropWhile P (rev (dropWhile P s)))"

definition py_strip :: "string \<Rightarrow> string" where
  "py_strip s = strip_where py_isspace s"

text \<open>\<^verbatim>\<open>s.split(",")\<close>: the pieces between the commas; the result is never empty.\<close>

fun split_comma_acc :: "string \<Rightarrow> string \<Rightarrow> string list" where
  "split_comma_acc cur [] = [rev cur]"
| "split_comma_acc cur (c # cs) =
     (if c = CHR '','' then rev cur # split_comma_acc [] cs else split_comma_acc (c # cur) cs)"

definition py_split_comma :: "string \<Rightarrow> string list" where
  "py_split_comma s = split_comma_acc [] s"

section \<open>Python floats\<close>

text \<open>
  A Python \<^verbatim>\<open>float\<close> is an IEEE 754 binary64 number. A finite one is a rational, and
  every arithmetic operation returns the exact result rounded to the nearest representable
  number, ties going to the even significand. \<open>double_round\<close> is that rounding, with the
  gradual underflow below \<open>2^-1022\<close>; infinities and NaN are not modelled (the scores of
  the engine lie between -1 and a small multiple of the weights).
\<close>

text \<open>The number of binary digits of a positive integer.\<close>

function bit_length :: "int \<Rightarrow> int" where
  "bit_length n = (if n \<le> 0 then 0 else 1 + bit_length (n div 2))"
  by pat_completeness auto
termination
  by (relation "measure nat") auto

declare bit_length.simps [simp del]

definition pow2 :: "int \<Rightarrow> rat" where
  "pow2 k = (if 0 \<le> k then 2 ^ nat k else 1 / 2 ^ nat (- k))"

text \<open>For \<open>x > 0\<close>, the exponent \<open>e\<close> with \<open>2^e \<le> x < 2^(e+1)\<close>: the quotient of
  two integers of \<open>m\<close> and \<open>n\<close> binary digits lies between \<open>2^(m-n-1)\<close> and \<open>2^(m-n+1)\<close>.\<close>

definition binary_exponent :: "rat \<Rightarrow> int" where
  "binary_exponent x =
     (let (p, q) = quotient_of x;
          d = bit_length p - bit_length q
      in if pow2 d \<le> x then d else d - 1)"

definition round_half_even :: "rat \<Rightarrow> int" where
  "round_half_even t =
     (let f = \<lfloor>t\<rfloor>; r = t - of_int f
      in if r < 1 / 2 then f else if 1 / 2 < r then f + 1
         else if even f then f else f + 1)"

text \<open>Rounding to 53 significant binary digits, the last digit being worth at least
  \<open>2^-1074\<close>.\<close>

definition double_round :: "rat \<Rightarrow> rat" where
  "double_round x =
     (if x = 0 then 0
      else let a = \<bar>x\<bar>;
               k = max (binary_exponent a - 52) (- 1074);
               m = round_half_even (a / pow2 k)
           in (if x < 0 then - 1 else 1) * of_int m * pow2 k)"

text \<open>The float operations \<^verbatim>\<open>+\<close>, \<^verbatim>\<open>-\<close>, \<^verbatim>\<open>*\<close> and \<^verbatim>\<open>/\<close>;
  \<^verbatim>\<open>/\<close> on two integers is correctly rounded as well.\<close>

definition fadd :: "rat \<Rightarrow> rat \<Rightarrow> rat" where
  "fadd x y = double_round (x + y)"

definition fsub :: "rat \<Rightarrow> rat \<Rightarrow> rat" where
  "fsub x y = double_round (x - y)"

definition fmul :: "rat \<Rightarrow> rat \<Rightarrow> rat" where
  "fmul x y = double_round (x * y)"

definition fdiv :: "rat \<Rightarrow> rat \<Rightarrow> rat" where
  "fdiv x y = double_round (x / y)"

section \<open>Rule classifier (ai\_triage.py)\<close>

text \<open>The class constants. A Python dictionary literal iterates in the order written, so
  the keyword dictionaries are association lists in that order.\<close>

definition CATEGORY_SKILLS :: "(string \<times> string list) list" where
  "CATEGORY_SKILLS =
    [(''Network'', [''Network'', ''Security'']),
     (''Database'', [''Database'', ''Backend'']),
     (''DevOps'', [''DevOps'', ''Backend'']),
     (''Security'', [''Security'', ''Network'']),
     (''Frontend'', [''Frontend'']),
     (''Backend'', [''Backend'', ''Database'']),
     (''Access'', [''Access'', ''Security'']),
     (''Other'', [''DevOps'', ''Backend''])]"

definition CATEGORY_KEYWORDS :: "(string \<times> string list) list" where
  "CATEGORY_KEYWORDS =
    [(''Network'', [''vpn'', ''network'', ''firewall'', ''dns'', ''latency'', ''switch'',
                    ''router'', ''connection'']),
     (''Database'', [''database'', ''sql'', ''postgresql'', ''mysql'', ''mongodb'', ''query'',
                     ''replication'']),
     (''DevOps'', [''ci/cd'', ''pipeline'', ''kubernetes'', ''docker'', ''jenkins'',
                   ''terraform'', ''deployment'']),
     (''Security'', [''security'', ''ssl'', ''certificate'', ''vulnerability'',
                     ''unauthorized'', ''mfa'', ''login'']),
     (''Frontend'', [''frontend'', ''website'', ''css'', ''javascript'', ''mobile'',
                     ''browser'', ''ui'']),
     (''Backend'', [''api'', ''backend'', ''server'', ''endpoint'', ''payment'', ''email'',
                    ''session'']),
     (''Access'', [''access'', ''permission'', ''credentials'', ''password'', ''account'',
                   ''privileges'']),
     (''Other'', [''printer'', ''laptop'', ''license'', ''inquiry'', ''policy''])]"

definition PRIORITY_KEYWORDS :: "(string \<times> string list) list" where
  "PRIORITY_KEYWORDS =
    [(''High'', [''critical'', ''down'', ''outage'', ''urgent'', ''production'', ''security'',
                 ''vulnerability'']),
     (''Medium'', [''slow'', ''intermittent'', ''warning'', ''issue'', ''problem'']),
     (''Low'', [''request'', ''inquiry'', ''question'', ''enhancement''])]"

text \<open>\<^verbatim>\<open>sum(1 for kw in keywords if kw in combined_text)\<close>.\<close>

definition count_matches :: "string \<Rightarrow> string list \<Rightarrow> nat" where
  "count_matches combined_text keywords = length (filter (\<lambda>kw. py_in kw combined_text) keywords)"

text \<open>The category loop: the pair is (\<^verbatim>\<open>category\<close>, \<^verbatim>\<open>max_matches\<close>).\<close>

fun category_loop :: "string \<Rightarrow> (string \<times> string list) list \<Rightarrow> string \<times> nat \<Rightarrow> string \<times> nat" where
  "category_loop combined_text [] (category, max_matches) = (category, max_matches)"
| "category_loop combined_text ((cat, keywords) # rest) (category, max_matches) =
     (let matches = count_matches combined_text keywords
      in if matches > max_matches
         then category_loop combined_text rest (cat, matches)
         else category_loop combined_text rest (category, max_matches))"

text \<open>The priority loop: the first tier with any matching keyword wins
  (\<^verbatim>\<open>break\<close>); \<open>priority\<close> is the value kept when no tier matches.\<close>

fun priority_loop :: "string \<Rightarrow> (string \<times> string list) list \<Rightarrow> string \<Rightarrow> string" where
  "priority_loop combined_text [] priority = priority"
| "priority_loop combined_text ((pri, keywords) # rest) priority =
     (if list_ex (\<lambda>kw. py_in kw combined_text) keywords then pri
      else priority_loop combined_text rest priority)"

text \<open>
  Ticket dictionaries are mutable objects; a heap maps references to their current
  contents. \<^verbatim>\<open>_triage_with_mock\<close> writes five keys into the dictionary it was
  given and returns that same reference. \<^verbatim>\<open>summary[:80]\<close> raises TypeError when
  the title is \<^verbatim>\<open>None\<close>; this happens before any key is written.
\<close>

type_synonym ref = nat
type_synonym heap = "ref \<Rightarrow> ticket"

definition triage_with_mock :: "heap \<Rightarrow> ref \<Rightarrow> pyval \<Rightarrow> pyval \<Rightarrow> py_error + (heap \<times> ref)" where
  "triage_with_mock h ticket summary description =
     (let combined_text = py_lower (py_str summary @ '' '' @ py_str description);
          category = fst (category_loop combined_text CATEGORY_KEYWORDS (''Other'', 0));
          priority = priority_loop combined_text PRIORITY_KEYWORDS ''Medium'';
          required_skills = (case map_of CATEGORY_SKILLS category of
                               Some skills \<Rightarrow> skills | None \<Rightarrow> [''Other''])
      in case summary of
           PNone \<Rightarrow> Inl TypeError
         | PStr title \<Rightarrow>
             (let summary_text = category @ '' issue: '' @ take 80 title @ ''...''
              in Inr (h(ticket := (h ticket)
                        (''ai_category'' \<mapsto> PStr category,
                         ''ai_priority'' \<mapsto> PStr priority,
                         ''ai_skills'' \<mapsto> PStr (py_join '', '' required_skills),
                         ''ai_summary'' \<mapsto> PStr summary_text,
                         ''triage_method'' \<mapsto> PStr ''Mock Rule-Based'')), ticket)))"

text \<open>
  \<^verbatim>\<open>triage_ticket\<close>. The language-model backend is a collaborator reached over the
  network; it is a parameter here: \<open>Inl h'\<close> is an exception raised with the heap left as
  \<open>h'\<close>, \<open>Inr\<close> a normal return.
\<close>

definition ticket_text :: "ticket \<Rightarrow> pyval" where
  "ticket_text t =
     (if t ''source'' = Some (PStr ''ServiceNow'')
      then py_get t ''short_description'' (PStr [])
      else py_get t ''summary'' (PStr []))"

definition triage_ticket ::
  "bool \<Rightarrow> (heap \<Rightarrow> ref \<Rightarrow> pyval \<Rightarrow> pyval \<Rightarrow> heap + (heap \<times> ref)) \<Rightarrow> heap \<Rightarrow> ref
    \<Rightarrow> py_error + (heap \<times> ref)" where
  "triage_ticket openai_available triage_with_openai h ticket =
     (let ticket_text = ticket_text (h ticket);
          full_description = py_get (h ticket) ''description'' ticket_text
      in if openai_available
         then (case triage_with_openai h ticket ticket_text full_description of
                 Inr res \<Rightarrow> Inr res
               | Inl h' \<Rightarrow> triage_with_mock h' ticket ticket_text full_description)
         else triage_with_mock h ticket ticket_text full_description)"

text \<open>The keys written by either classifier backend.\<close>

definition enrichment_keys :: "string set" where
  "enrichment_keys = {''ai_category'', ''ai_priority'', ''ai_skills'', ''ai_summary'', ''triage_method''}"

section \<open>Assignment engine (engineer\_assignment.py)\<close>

text \<open>
  An engineer dictionary. \<^verbatim>\<open>engineer.get(k, default)\<close> on an absent key behaves as
  the key holding the default, so the record has all four fields.
  Scores are Python floats: each is the rational value of the float, computed with the
  rounded operations, so that two scores compare as the floats of the code do. The literals
  \<^verbatim>\<open>0.5\<close>, \<^verbatim>\<open>1.0\<close> and \<^verbatim>\<open>-1.0\<close> are exact; \<^verbatim>\<open>0.1\<close>,
  \<^verbatim>\<open>0.6\<close> and \<^verbatim>\<open>0.4\<close> are the floats nearest to them.
\<close>

record engineer =
  name :: string
  skills :: "string list"
  availability :: string
  max_workload :: int

text \<open>A row of the audit log \<^verbatim>\<open>data/reassign_log.parquet\<close> (the wall-clock
  timestamp is left out); \<^verbatim>\<open>log_assignment\<close> appends one row.\<close>

record log_entry =
  ticket_id :: string
  assigned_engineer :: "string option"
  is_fallback :: bool
  reason :: string

text \<open>
  The engine object: the roster, the workload dictionary (keys in insertion order; the
  counters start at zero and are only ever incremented, so they are natural numbers), the
  attribute \<^verbatim>\<open>current_ticket_id\<close> (\<open>None\<close> until \<^verbatim>\<open>assign_ticket\<close> first sets
  it), and the rows of the audit log its storage writes to.
\<close>

record engine =
  engineers :: "engineer list"
  workload :: "(string \<times> nat) list"
  current_ticket_id :: "string option"
  reassign_log :: "log_entry list"

definition fresh_workload :: "engineer list \<Rightarrow> (string \<times> nat) list" where
  "fresh_workload engs = fold (\<lambda>eng w. AList.update (name eng) 0 w) engs []"

definition init_engine :: "engineer list \<Rightarrow> log_entry list \<Rightarrow> engine" where
  "init_engine engs rows =
     \<lparr>engineers = engs, workload = fresh_workload engs, current_ticket_id = None,
      reassign_log = rows\<rparr>"

definition reset_workload :: "engine \<Rightarrow> engine" where
  "reset_workload st = st\<lparr>workload := fresh_workload (engineers st)\<rparr>"

definition log_assignment :: "engine \<Rightarrow> string \<Rightarrow> string option \<Rightarrow> bool \<Rightarrow> string \<Rightarrow> engine" where
  "log_assignment st tid eng fallback why =
     st\<lparr>reassign_log := reassign_log st @
          [\<lparr>ticket_id = tid, assigned_engineer = eng, is_fallback = fallback, reason = why\<rparr>]\<rparr>"

text \<open>
  The \<^verbatim>\<open>required_skills\<close> argument of \<^verbatim>\<open>calculate_skill_match_score\<close>:
  \<^verbatim>\<open>None\<close>, a string, or a native list of strings.
\<close>

datatype skills_arg = SkillsNone | SkillsStr string | SkillsList "string list"

fun skills_of_pyval :: "pyval \<Rightarrow> skills_arg" where
  "skills_of_pyval PNone = SkillsNone"
| "skills_of_pyval (PStr s) = SkillsStr s"

text \<open>\<^verbatim>\<open>not required_skills\<close> holds for \<^verbatim>\<open>None\<close>, the empty string and the
  empty list.\<close>

fun skills_truthy :: "skills_arg \<Rightarrow> bool" where
  "skills_truthy SkillsNone = False"
| "skills_truthy (SkillsStr s) = (s \<noteq> [])"
| "skills_truthy (SkillsList xs) = (xs \<noteq> [])"

definition is_quote :: "char \<Rightarrow> bool" where
  "is_quote c = (c = CHR 0x27 \<or> c = CHR 0x22)"

text \<open>The normalisation of the required skills to \<^verbatim>\<open>required_skills_set\<close>.\<close>

fun required_skills_set :: "skills_arg \<Rightarrow> string set" where
  "required_skills_set SkillsNone = {}"
| "required_skills_set (SkillsList xs) = set (map (\<lambda>s. py_lower (py_strip s)) (filter (\<lambda>s. s \<noteq> []) xs))"
| "required_skills_set (SkillsStr r) =
     (let s = py_strip r;
          s = (if s \<noteq> [] \<and> hd s = CHR ''['' \<and> last s = CHR '']'' then butlast (tl s) else s);
          parts = map (\<lambda>p. strip_where is_quote (py_strip p))
                    (filter (\<lambda>p. py_strip p \<noteq> []) (py_split_comma s))
      in set (map py_lower (filter (\<lambda>p. p \<noteq> []) parts)))"

definition calculate_skill_match_score :: "engineer \<Rightarrow> skills_arg \<Rightarrow> rat" where
  "calculate_skill_match_score eng required_skills =
     (if \<not> skills_truthy required_skills then 1 / 2
      else
        let engineer_skills = set (map (\<lambda>skill. py_lower (py_strip skill)) (skills eng));
            required = required_skills_set required_skills
        in if required = {} then 1 / 2
           else fdiv (of_nat (card (engineer_skills \<inter> required))) (of_nat (card required)))"

text \<open>\<^verbatim>\<open>self.workload.get(engineer_name, 0)\<close>.\<close>

definition current_load :: "(string \<times> nat) list \<Rightarrow> string \<Rightarrow> nat" where
  "current_load w n = (case map_of w n of None \<Rightarrow> 0 | Some c \<Rightarrow> c)"

definition calculate_workload_score :: "(string \<times> nat) list \<Rightarrow> engineer \<Rightarrow> rat" where
  "calculate_workload_score w eng =
     (let current_workload = current_load w (name eng)
      in if int current_workload \<ge> max_workload eng then 0
         else fsub 1 (fdiv (of_nat current_workload) (of_int (max_workload eng))))"

definition get_availability_score :: "engineer \<Rightarrow> rat" where
  "get_availability_score eng = (if py_lower (availability eng) = ''available'' then 1 else 0)"

text \<open>
  The scoring loop of \<^verbatim>\<open>find_best_engineer\<close>; the pair is
  (\<^verbatim>\<open>best_engineer\<close>, \<^verbatim>\<open>best_score\<close>).
\<close>

fun scoring_loop ::
  "(string \<times> nat) list \<Rightarrow> skills_arg \<Rightarrow> rat \<Rightarrow> rat \<Rightarrow> bool \<Rightarrow> engineer list
    \<Rightarrow> string option \<times> rat \<Rightarrow> string option \<times> rat" where
  "scoring_loop w required_skills skill_weight workload_weight allow_overflow []
     (best_engineer, best_score) = (best_engineer, best_score)"
| "scoring_loop w required_skills skill_weight workload_weight allow_overflow (eng # rest)
     (best_engineer, best_score) =
     (let skill_score = calculate_skill_match_score eng required_skills;
          workload_score = calculate_workload_score w eng;
          availability_score = get_availability_score eng
      in if availability_score = 0
         then scoring_loop w required_skills skill_weight workload_weight allow_overflow rest
                (best_engineer, best_score)
         else if workload_score = 0 \<and> \<not> allow_overflow
         then scoring_loop w required_skills skill_weight workload_weight allow_overflow rest
                (best_engineer, best_score)
         else
           let combined_score = fadd (fmul skill_score skill_weight)
                                     (fmul workload_score workload_weight);
               combined_score = (if skill_score = 0
                                 then fadd (double_round (1 / 10))
                                        (fmul workload_score workload_weight)
                                 else combined_score)
           in if combined_score > best_score
              then scoring_loop w required_skills skill_weight workload_weight allow_overflow rest
                     (Some (name eng), combined_score)
              else scoring_loop w required_skills skill_weight workload_weight allow_overflow rest
                     (best_engineer, best_score))"

text \<open>The default weights of the signatures, \<^verbatim>\<open>skill_weight = 0.6\<close> and
  \<^verbatim>\<open>workload_weight = 0.4\<close>.\<close>

definition default_skill_weight :: rat where
  "default_skill_weight = double_round (3 / 5)"

definition default_workload_weight :: rat where
  "default_workload_weight = double_round (2 / 5)"

text \<open>The normal selection: the scoring loop run from
  \<^verbatim>\<open>best_engineer = None\<close>, \<^verbatim>\<open>best_score = -1.0\<close>.\<close>

definition ticket_required_skills :: "ticket \<Rightarrow> skills_arg" where
  "ticket_required_skills t = skills_of_pyval (py_get t ''ai_skills'' (PStr []))"

definition normal_selection :: "engine \<Rightarrow> ticket \<Rightarrow> rat \<Rightarrow> rat \<Rightarrow> bool \<Rightarrow> string option" where
  "normal_selection st t skill_weight workload_weight allow_overflow =
     fst (scoring_loop (workload st) (ticket_required_skills t)
            skill_weight workload_weight allow_overflow (engineers st) (None, - 1))"

text \<open>The fallback loop; the pair is (\<^verbatim>\<open>min_load\<close>, \<^verbatim>\<open>chosen\<close>).\<close>

fun least_loaded_loop ::
  "(string \<times> nat) list \<Rightarrow> engineer list \<Rightarrow> nat option \<times> string option
    \<Rightarrow> nat option \<times> string option" where
  "least_loaded_loop w [] (min_load, chosen) = (min_load, chosen)"
| "least_loaded_loop w (eng # rest) (min_load, chosen) =
     (let load = current_load w (name eng)
      in if (case min_load of None \<Rightarrow> True | Some m \<Rightarrow> load < m)
         then least_loaded_loop w rest (Some load, Some (name eng))
         else least_loaded_loop w rest (min_load, chosen))"

definition fallback_candidates :: "engine \<Rightarrow> engineer list" where
  "fallback_candidates st =
     (let available_candidates = filter (\<lambda>eng. get_availability_score eng = 1) (engineers st)
      in if available_candidates \<noteq> [] then available_candidates else engineers st)"

definition fallback_reason :: string where
  "fallback_reason = ''No suitable engineer found (fallback to least loaded)''"

text \<open>The fallback: the loop run from \<^verbatim>\<open>min_load = None\<close>,
  \<^verbatim>\<open>chosen = None\<close> over the fallback candidates.\<close>

definition fallback_choice :: "engine \<Rightarrow> string option" where
  "fallback_choice st = snd (least_loaded_loop (workload st) (fallback_candidates st) (None, None))"

definition find_best_engineer ::
  "engine \<Rightarrow> ticket \<Rightarrow> rat \<Rightarrow> rat \<Rightarrow> bool \<Rightarrow> string option \<times> engine" where
  "find_best_engineer st t skill_weight workload_weight allow_overflow =
     (case normal_selection st t skill_weight workload_weight allow_overflow of
        Some best_engineer \<Rightarrow> (Some best_engineer, st)
      | None \<Rightarrow>
          (let chosen = fallback_choice st;
               tid = (case current_ticket_id st of None \<Rightarrow> ''Unknown'' | Some i \<Rightarrow> i)
           in (chosen, log_assignment st tid chosen True fallback_reason)))"

text \<open>\<^verbatim>\<open>a or b\<close> on values.\<close>

definition py_or :: "pyval \<Rightarrow> pyval \<Rightarrow> pyval" where
  "py_or a b = (if truthy a then a else b)"

text \<open>
  \<^verbatim>\<open>assign_ticket\<close>. The engine writes the one key \<open>assigned_engineer\<close> of a
  ticket dictionary and returns the dictionary; tickets are passed and returned as values
  here, which shows every write the code makes as long as a batch does not hold the same
  dictionary object twice. The identifier kept for the audit log is
  \<^verbatim>\<open>ticket.get("number") or ticket.get("key") or "Unknown"\<close>.
  \<^verbatim>\<open>if assigned_engineer:\<close> is a truthiness test, so the
  empty name takes the else branch like \<^verbatim>\<open>None\<close>.
  \<^verbatim>\<open>self.workload[assigned_engineer] += 1\<close> raises KeyError on a missing key.
\<close>

definition ticket_identifier :: "ticket \<Rightarrow> string" where
  "ticket_identifier t =
     py_str (py_or (py_or (py_get t ''number'' PNone) (py_get t ''key'' PNone)) (PStr ''Unknown''))"

definition assign_ticket ::
  "engine \<Rightarrow> ticket \<Rightarrow> rat \<Rightarrow> rat \<Rightarrow> bool \<Rightarrow> py_error + (ticket \<times> engine)" where
  "assign_ticket st t skill_weight workload_weight allow_overflow =
     (let st1 = st\<lparr>current_ticket_id := Some (ticket_identifier t)\<rparr>;
          (assigned, st2) = find_best_engineer st1 t skill_weight workload_weight allow_overflow
      in case assigned of
           None \<Rightarrow> Inr (t(''assigned_engineer'' \<mapsto> PStr ''Unassigned''), st2)
         | Some n \<Rightarrow>
             if n = [] then Inr (t(''assigned_engineer'' \<mapsto> PStr ''Unassigned''), st2)
             else (case map_of (workload st2) n of
                     None \<Rightarrow> Inl KeyError
                   | Some c \<Rightarrow>
                       Inr (t(''assigned_engineer'' \<mapsto> PStr n),
                            st2\<lparr>workload := AList.update n (c + 1) (workload st2)\<rparr>)))"

text \<open>\<^verbatim>\<open>priority_order.get(t.get("ai_priority", "Medium"), 1)\<close>.\<close>

definition priority_order :: "(string \<times> nat) list" where
  "priority_order = [(''High'', 0), (''Medium'', 1), (''Low'', 2)]"

definition priority_key :: "ticket \<Rightarrow> nat" where
  "priority_key t =
     (case py_get t ''ai_priority'' (PStr ''Medium'') of
        PNone \<Rightarrow> 1
      | PStr p \<Rightarrow> (case map_of priority_order p of None \<Rightarrow> 1 | Some k \<Rightarrow> k))"

text \<open>The loop of \<^verbatim>\<open>assign_tickets\<close>; an exception ends it.\<close>

fun assign_loop ::
  "engine \<Rightarrow> rat \<Rightarrow> rat \<Rightarrow> bool \<Rightarrow> ticket list \<Rightarrow> ticket list
    \<Rightarrow> py_error + (ticket list \<times> engine)" where
  "assign_loop st skill_weight workload_weight allow_overflow [] assigned_tickets =
     Inr (assigned_tickets, st)"
| "assign_loop st skill_weight workload_weight allow_overflow (t # rest) assigned_tickets =
     (case assign_ticket st t skill_weight workload_weight allow_overflow of
        Inl e \<Rightarrow> Inl e
      | Inr (assigned_ticket, st') \<Rightarrow>
          assign_loop st' skill_weight workload_weight allow_overflow rest
            (assigned_tickets @ [assigned_ticket]))"

text \<open>\<^verbatim>\<open>sorted\<close> is stable, as is \<^const>\<open>sort_key\<close> (insertion sort).\<close>

definition assign_tickets ::
  "engine \<Rightarrow> ticket list \<Rightarrow> rat \<Rightarrow> rat \<Rightarrow> bool \<Rightarrow> bool \<Rightarrow> py_error + (ticket list \<times> engine)" where
  "assign_tickets st tickets skill_weight workload_weight reset allow_overflow =
     (let sorted_tickets = sort_key priority_key tickets;
          st1 = (if reset then reset_workload st else st)
      in assign_loop st1 skill_weight workload_weight allow_overflow sorted_tickets [])"

section \<open>Notions the properties are stated with\<close>

text \<open>
  The match count of a category, as the specification words it: the number of its keywords
  that occur as contiguous substrings of the text (\<^const>\<open>sublist\<close> is
  \<open>\<exists>pre post. text = pre @ kw @ post\<close>).
\<close>

definition keyword_hits :: "string \<Rightarrow> string list \<Rightarrow> nat" where
  "keyword_hits s keywords = length (filter (\<lambda>kw. sublist kw s) keywords)"

text \<open>
  The candidate filter, as the specification words it: an engineer is skipped when the
  availability score is 0, or when the workload score is 0 and overflow is not allowed.
\<close>

definition survives :: "(string \<times> nat) list \<Rightarrow> bool \<Rightarrow> engineer \<Rightarrow> bool" where
  "survives w allow_overflow eng =
     (get_availability_score eng \<noteq> 0
      \<and> \<not> (calculate_workload_score w eng = 0 \<and> \<not> allow_overflow))"

definition candidates :: "engine \<Rightarrow> bool \<Rightarrow> engineer list" where
  "candidates st allow_overflow = filter (survives (workload st) allow_overflow) (engineers st)"

text \<open>
  The combined score, as the specification words it:
  \<open>skill * skill_weight + workload * workload_weight\<close>, overridden to
  \<open>0.1 + workload * workload_weight\<close> when the skill score is 0, in float arithmetic.
\<close>

definition combined :: "(string \<times> nat) list \<Rightarrow> skills_arg \<Rightarrow> rat \<Rightarrow> rat \<Rightarrow> engineer \<Rightarrow> rat" where
  "combined w required_skills skill_weight workload_weight eng =
     (if calculate_skill_match_score eng required_skills = 0
      then fadd (double_round (1 / 10)) (fmul (calculate_workload_score w eng) workload_weight)
      else fadd (fmul (calculate_skill_match_score eng required_skills) skill_weight)
             (fmul (calculate_workload_score w eng) workload_weight))"

text \<open>
  A consistent engine: every engineer of the roster has a workload counter, and the
  workload dictionary has no key twice. The constructor and \<^verbatim>\<open>reset_workload\<close>
  establish this and \<^verbatim>\<open>assign_ticket\<close> keeps it.
\<close>

definition consistent :: "engine \<Rightarrow> bool" where
  "consistent st =
     (name ` set (engineers st) \<subseteq> fst ` set (workload st) \<and> distinct (map fst (workload st)))"

text \<open>
  A plain skill token, as the three input shapes of the skill score can all carry it: not
  empty, without a comma, and neither beginning nor ending with whitespace, a quote or a
  bracket.
\<close>

definition edge_ok :: "char \<Rightarrow> bool" where
  "edge_ok c = (\<not> py_isspace c \<and> \<not> is_quote c \<and> c \<noteq> CHR ''['' \<and> c \<noteq> CHR '']'')"

definition plain_token :: "string \<Rightarrow> bool" where
  "plain_token t = (t \<noteq> [] \<and> CHR '','' \<notin> set t \<and> edge_ok (hd t) \<and> edge_ok (last t))"

section \<open>Scenario data\<close>

text \<open>The engineers and tickets of the specification's scenarios, used to run the
  definitions on concrete inputs.\<close>

definition eng_A :: engineer where
  "eng_A = \<lparr>name = ''A'', skills = [''Network'', ''Security''],
            availability = ''available'', max_workload = 1\<rparr>"

definition eng_B :: engineer where
  "eng_B = \<lparr>name = ''B'', skills = [''Network'', ''Security''],
            availability = ''available'', max_workload = 1\<rparr>"

definition eng_D :: engineer where
  "eng_D = \<lparr>name = ''D'', skills = [''Database''], availability = ''available'',
            max_workload = 2\<rparr>"

definition ticket_S1 :: ticket where
  "ticket_S1 = [''number'' \<mapsto> PStr ''INC10001'', ''ai_priority'' \<mapsto> PStr ''Medium'',
                ''ai_skills'' \<mapsto> PStr ''Network, Security'']"

definition engine_full :: engine where
  "engine_full = (init_engine [eng_A, eng_B] [])\<lparr>workload := [(''A'', 1), (''B'', 1)]\<rparr>"

text \<open>Two engineers whose combined scores for \<open>ticket_devops\<close> are both 2/3 in exact
  arithmetic and one unit in the last place apart as floats.\<close>

definition eng_P :: engineer where
  "eng_P = \<lparr>name = ''P'', skills = [''Network'', ''Security'', ''DevOps''],
            availability = ''available'', max_workload = 6\<rparr>"

definition eng_Q :: engineer where
  "eng_Q = \<lparr>name = ''Q'', skills = [''Network'', ''Security''],
            availability = ''available'', max_workload = 3\<rparr>"

definition engine_close :: engine where
  "engine_close = (init_engine [eng_P, eng_Q] [])\<lparr>workload := [(''P'', 5), (''Q'', 1)]\<rparr>"

definition ticket_devops :: ticket where
  "ticket_devops = [''number'' \<mapsto> PStr ''INC10002'', ''ai_priority'' \<mapsto> PStr ''High'',
                    ''ai_skills'' \<mapsto> PStr ''Network, Security, DevOps'']"


text \<open>
  Tickets as the adapters of \<^verbatim>\<open>api_integrations.py\<close> build them from a remote
  record that has no title: the title key is present and holds \<^verbatim>\<open>None\<close>. Every
  reference of the heap holds the ticket. \<open>no_backend\<close> is a language-model backend that
  raises without touching the heap.
\<close>

definition no_backend :: "heap \<Rightarrow> ref \<Rightarrow> pyval \<Rightarrow> pyval \<Rightarrow> heap + (heap \<times> ref)" where
  "no_backend h r s d = Inl h"

definition heap_incident_untitled :: heap where
  "heap_incident_untitled =
     (\<lambda>_. [''source'' \<mapsto> PStr ''ServiceNow'', ''number'' \<mapsto> PStr ''INC0010001'',
           ''short_description'' \<mapsto> PNone,
           ''description'' \<mapsto> PStr ''VPN connection drops''])"

definition heap_issue_untitled :: heap where
  "heap_issue_untitled =
     (\<lambda>_. [''source'' \<mapsto> PStr ''Jira'', ''key'' \<mapsto> PStr ''PROJ-1001'',
           ''summary'' \<mapsto> PNone, ''description'' \<mapsto> PStr ''Production outage''])"

definition heap_issue_bare :: heap where
  "heap_issue_bare =
     (\<lambda>_. [''source'' \<mapsto> PStr ''Jira'', ''key'' \<mapsto> PStr ''PROJ-1002'',
           ''summary'' \<mapsto> PNone, ''assignee'' \<mapsto> PNone])"

section \<open>Properties of the rule classifier\<close>

text \<open>\<^verbatim>\<open>kw in text\<close> is the substring relation.\<close>

lemma py_in_sublist: "py_in kw s = sublist kw s"
  by (induction s) (auto simp: sublist_Cons_right)

lemma count_matches_hits: "count_matches s keywords = keyword_hits s keywords"
  by (simp add: count_matches_def keyword_hits_def py_in_sublist)

lemma category_loop_keep:
  "\<forall>e \<in> set tbl. count_matches text (snd e) \<le> m0 \<Longrightarrow>
   category_loop text tbl (c0, m0) = (c0, m0)"
  by (induction tbl) auto

lemma category_loop_first_max:
  "i < length tbl \<Longrightarrow> m0 < count_matches text (snd (tbl ! i)) \<Longrightarrow>
   \<forall>j < length tbl. count_matches text (snd (tbl ! j)) \<le> count_matches text (snd (tbl ! i)) \<Longrightarrow>
   \<forall>j < i. count_matches text (snd (tbl ! j)) < count_matches text (snd (tbl ! i)) \<Longrightarrow>
   category_loop text tbl (c0, m0) = (fst (tbl ! i), count_matches text (snd (tbl ! i)))"
proof (induction tbl arbitrary: i c0 m0)
  case Nil
  then show ?case by simp
next
  case (Cons e rest)
  obtain cat kws where e: "e = (cat, kws)" by (cases e)
  show ?case
  proof (cases i)
    case 0
    have "\<forall>x \<in> set rest. count_matches text (snd x) \<le> count_matches text kws"
    proof
      fix x assume "x \<in> set rest"
      then obtain k where k: "k < length rest" "rest ! k = x"
        by (auto simp: in_set_conv_nth)
      from Cons.prems(3) k 0 e have "count_matches text (snd ((e # rest) ! Suc k)) \<le> count_matches text kws"
        by (metis Suc_less_eq length_Cons nth_Cons_0 snd_conv)
      with k show "count_matches text (snd x) \<le> count_matches text kws" by simp
    qed
    from category_loop_keep[OF this] Cons.prems(2) 0 e show ?thesis by simp
  next
    case (Suc k)
    let ?n = "count_matches text (snd (rest ! k))"
    from Suc Cons.prems have k: "k < length rest" by simp
    from Suc Cons.prems(4) e have head: "count_matches text kws < ?n" by auto
    have le: "\<forall>j < length rest. count_matches text (snd (rest ! j)) \<le> ?n"
      using Cons.prems(3) Suc by auto
    have lt: "\<forall>j < k. count_matches text (snd (rest ! j)) < ?n"
      using Cons.prems(4) Suc by auto
    show ?thesis
    proof (cases "m0 < count_matches text kws")
      case True
      from Cons.IH[OF k head le lt] True e Suc show ?thesis by simp
    next
      case False
      from Cons.prems(2) Suc have "m0 < ?n" by simp
      from Cons.IH[OF k this le lt] False e Suc show ?thesis by simp
    qed
  qed
qed

lemma priority_loop_none:
  "\<forall>e \<in> set tbl. \<not> list_ex (\<lambda>kw. py_in kw text) (snd e) \<Longrightarrow> priority_loop text tbl d = d"
  by (induction tbl) auto

lemma priority_loop_first:
  "i < length tbl \<Longrightarrow> list_ex (\<lambda>kw. py_in kw text) (snd (tbl ! i)) \<Longrightarrow>
   \<forall>j < i. \<not> list_ex (\<lambda>kw. py_in kw text) (snd (tbl ! j)) \<Longrightarrow>
   priority_loop text tbl d = fst (tbl ! i)"
proof (induction tbl arbitrary: i)
  case Nil
  then show ?case by simp
next
  case (Cons e rest)
  obtain pri kws where e: "e = (pri, kws)" by (cases e)
  show ?case
  proof (cases i)
    case 0
    with Cons.prems e show ?thesis by simp
  next
    case (Suc k)
    with Cons.prems e have "\<not> list_ex (\<lambda>kw. py_in kw text) kws" by auto
    moreover have "priority_loop text rest d = fst (rest ! k)"
    proof (rule Cons.IH)
      show "k < length rest" using Cons.prems(1) Suc by simp
      show "list_ex (\<lambda>kw. py_in kw text) (snd (rest ! k))" using Cons.prems(2) Suc by simp
      show "\<forall>j<k. \<not> list_ex (\<lambda>kw. py_in kw text) (snd (rest ! j))"
      proof (intro allI impI)
        fix j assume "j < k"
        then have "Suc j < i" using Suc by simp
        with Cons.prems(3) have "\<not> list_ex (\<lambda>kw. py_in kw text) (snd ((e # rest) ! Suc j))" by blast
        then show "\<not> list_ex (\<lambda>kw. py_in kw text) (snd (rest ! j))" by simp
      qed
    qed
    ultimately show ?thesis using e Suc by simp
  qed
qed

text \<open>
  Claim C9. For every ticket whose title is a string, the rule classifier writes as
  \<open>ai_priority\<close> the first tier, in the order High, Medium, Low, one of whose keywords is
  a substring of the lowercased text, and \<open>Medium\<close> when no tier has a match.
\<close>

theorem priority_first_matching_tier:
  "\<exists>h' p. triage_with_mock h ticket (PStr title) description = Inr (h', ticket)
     \<and> h' ticket ''ai_priority'' = Some (PStr p)
     \<and> map fst PRIORITY_KEYWORDS = [''High'', ''Medium'', ''Low'']
     \<and> (\<forall>i < length PRIORITY_KEYWORDS.
           (\<exists>kw \<in> set (snd (PRIORITY_KEYWORDS ! i)).
               sublist kw (py_lower (title @ '' '' @ py_str description)))
           \<and> (\<forall>j < i. \<forall>kw \<in> set (snd (PRIORITY_KEYWORDS ! j)).
                  \<not> sublist kw (py_lower (title @ '' '' @ py_str description)))
           \<longrightarrow> p = fst (PRIORITY_KEYWORDS ! i))
     \<and> ((\<forall>i < length PRIORITY_KEYWORDS. \<forall>kw \<in> set (snd (PRIORITY_KEYWORDS ! i)).
             \<not> sublist kw (py_lower (title @ '' '' @ py_str description)))
          \<longrightarrow> p = ''Medium'')"
proof -
  let ?text = "py_lower (title @ '' '' @ py_str description)"
  let ?p = "priority_loop ?text PRIORITY_KEYWORDS ''Medium''"
  have run: "\<exists>h'. triage_with_mock h ticket (PStr title) description = Inr (h', ticket)
     \<and> h' ticket ''ai_priority'' = Some (PStr ?p)"
    by (simp add: triage_with_mock_def Let_def)
  have order: "map fst PRIORITY_KEYWORDS = [''High'', ''Medium'', ''Low'']"
    by (simp add: PRIORITY_KEYWORDS_def)
  have first: "\<forall>i < length PRIORITY_KEYWORDS.
           (\<exists>kw \<in> set (snd (PRIORITY_KEYWORDS ! i)). sublist kw ?text)
           \<and> (\<forall>j < i. \<forall>kw \<in> set (snd (PRIORITY_KEYWORDS ! j)). \<not> sublist kw ?text)
           \<longrightarrow> ?p = fst (PRIORITY_KEYWORDS ! i)"
  proof (intro allI impI)
    fix i assume i: "i < length PRIORITY_KEYWORDS"
    assume h: "(\<exists>kw \<in> set (snd (PRIORITY_KEYWORDS ! i)). sublist kw ?text)
           \<and> (\<forall>j < i. \<forall>kw \<in> set (snd (PRIORITY_KEYWORDS ! j)). \<not> sublist kw ?text)"
    show "?p = fst (PRIORITY_KEYWORDS ! i)"
      by (rule priority_loop_first[OF i]) (use h in \<open>auto simp: list_ex_iff py_in_sublist\<close>)
  qed
  have none: "(\<forall>i < length PRIORITY_KEYWORDS. \<forall>kw \<in> set (snd (PRIORITY_KEYWORDS ! i)). \<not> sublist kw ?text)
          \<longrightarrow> ?p = ''Medium''"
  proof
    assume h: "\<forall>i < length PRIORITY_KEYWORDS. \<forall>kw \<in> set (snd (PRIORITY_KEYWORDS ! i)). \<not> sublist kw ?text"
    have "\<forall>e \<in> set PRIORITY_KEYWORDS. \<not> list_ex (\<lambda>kw. py_in kw ?text) (snd e)"
    proof
      fix e assume "e \<in> set PRIORITY_KEYWORDS"
      then obtain i where "i < length PRIORITY_KEYWORDS" "PRIORITY_KEYWORDS ! i = e"
        by (auto simp: in_set_conv_nth)
      with h have "\<forall>kw \<in> set (snd e). \<not> sublist kw ?text" by blast
      then show "\<not> list_ex (\<lambda>kw. py_in kw ?text) (snd e)"
        by (simp add: list_ex_iff py_in_sublist)
    qed
    then show "?p = ''Medium''"
      by (rule priority_loop_none)
  qed
  from run obtain h' where
    a: "triage_with_mock h ticket (PStr title) description = Inr (h', ticket)"
    and b: "h' ticket ''ai_priority'' = Some (PStr ?p)"
    by (elim exE conjE)
  from a b order first none show ?thesis
    by (intro exI[of _ h'] exI[of _ ?p] conjI)
qed

text \<open>
  Four runs: an upper-case keyword of the first tier together with a keyword of the last
  tier; a keyword of the second tier together with one of the last; a keyword of the last
  tier only, found in the description; no keyword at all.
\<close>

theorem priority_first_matching_tier_witness:
  "(\<exists>h'. triage_with_mock (\<lambda>_. Map.empty) 0 (PStr ''URGENT: printer inquiry'') (PStr [])
          = Inr (h', 0) \<and> h' 0 ''ai_priority'' = Some (PStr ''High''))
   \<and> (\<exists>h'. triage_with_mock (\<lambda>_. Map.empty) 0 (PStr ''Slow Request'') (PStr [])
          = Inr (h', 0) \<and> h' 0 ''ai_priority'' = Some (PStr ''Medium''))
   \<and> (\<exists>h'. triage_with_mock (\<lambda>_. Map.empty) 0 (PStr ''Password Reset'') (PStr ''A Question'')
          = Inr (h', 0) \<and> h' 0 ''ai_priority'' = Some (PStr ''Low''))
   \<and> (\<exists>h'. triage_with_mock (\<lambda>_. Map.empty) 0 (PStr ''Hello world'') (PStr [])
          = Inr (h', 0) \<and> h' 0 ''ai_priority'' = Some (PStr ''Medium''))"
proof -
  have len: "length PRIORITY_KEYWORDS = 3" by (simp add: PRIORITY_KEYWORDS_def)
  have tiers: "fst (PRIORITY_KEYWORDS ! 0) = ''High''" "fst (PRIORITY_KEYWORDS ! 1) = ''Medium''"
    "fst (PRIORITY_KEYWORDS ! 2) = ''Low''"
    by (simp_all add: PRIORITY_KEYWORDS_def)
  have c1: "\<exists>h'. triage_with_mock (\<lambda>_. Map.empty) 0 (PStr ''URGENT: printer inquiry'') (PStr [])
          = Inr (h', 0) \<and> h' 0 ''ai_priority'' = Some (PStr ''High'')"
  proof -
    let ?text = "py_lower (''URGENT: printer inquiry'' @ '' '' @ py_str (PStr []))"
    have hit: "\<exists>kw \<in> set (snd (PRIORITY_KEYWORDS ! 0)). sublist kw ?text"
      by code_simp
    from priority_first_matching_tier[of "\<lambda>_. Map.empty" 0 "''URGENT: printer inquiry''" "PStr []"]
    obtain h' p where r: "triage_with_mock (\<lambda>_. Map.empty) 0 (PStr ''URGENT: printer inquiry'') (PStr []) = Inr (h', 0)"
       "h' 0 ''ai_priority'' = Some (PStr p)"
       and f: "\<forall>i < length PRIORITY_KEYWORDS.
             (\<exists>kw \<in> set (snd (PRIORITY_KEYWORDS ! i)). sublist kw ?text)
             \<and> (\<forall>j < i. \<forall>kw \<in> set (snd (PRIORITY_KEYWORDS ! j)). \<not> sublist kw ?text)
             \<longrightarrow> p = fst (PRIORITY_KEYWORDS ! i)"
      by (elim exE conjE)
    from f[rule_format, of 0] len hit have "p = fst (PRIORITY_KEYWORDS ! 0)" by simp
    with tiers r show ?thesis by simp
  qed
  have c2: "\<exists>h'. triage_with_mock (\<lambda>_. Map.empty) 0 (PStr ''Slow Request'') (PStr [])
          = Inr (h', 0) \<and> h' 0 ''ai_priority'' = Some (PStr ''Medium'')"
  proof -
    let ?text = "py_lower (''Slow Request'' @ '' '' @ py_str (PStr []))"
    have hit: "\<exists>kw \<in> set (snd (PRIORITY_KEYWORDS ! 1)). sublist kw ?text"
      by code_simp
    have "\<forall>j \<in> set [0..<1]. \<forall>kw \<in> set (snd (PRIORITY_KEYWORDS ! j)). \<not> sublist kw ?text"
      by code_simp
    then have miss: "\<forall>j < 1. \<forall>kw \<in> set (snd (PRIORITY_KEYWORDS ! j)). \<not> sublist kw ?text"
      by simp
    from priority_first_matching_tier[of "\<lambda>_. Map.empty" 0 "''Slow Request''" "PStr []"]
    obtain h' p where r: "triage_with_mock (\<lambda>_. Map.empty) 0 (PStr ''Slow Request'') (PStr []) = Inr (h', 0)"
       "h' 0 ''ai_priority'' = Some (PStr p)"
       and f: "\<forall>i < length PRIORITY_KEYWORDS.
             (\<exists>kw \<in> set (snd (PRIORITY_KEYWORDS ! i)). sublist kw ?text)
             \<and> (\<forall>j < i. \<forall>kw \<in> set (snd (PRIORITY_KEYWORDS ! j)). \<not> sublist kw ?text)
             \<longrightarrow> p = fst (PRIORITY_KEYWORDS ! i)"
      by (elim exE conjE)
    from f[rule_format, of 1] len hit miss have "p = fst (PRIORITY_KEYWORDS ! 1)" by simp
    with tiers r show ?thesis by simp
  qed
  have c3: "\<exists>h'. triage_with_mock (\<lambda>_. Map.empty) 0 (PStr ''Password Reset'') (PStr ''A Question'')
          = Inr (h', 0) \<and> h' 0 ''ai_priority'' = Some (PStr ''Low'')"
  proof -
    let ?text = "py_lower (''Password Reset'' @ '' '' @ py_str (PStr ''A Question''))"
    have hit: "\<exists>kw \<in> set (snd (PRIORITY_KEYWORDS ! 2)). sublist kw ?text"
      by code_simp
    have "\<forall>j \<in> set [0..<2]. \<forall>kw \<in> set (snd (PRIORITY_KEYWORDS ! j)). \<not> sublist kw ?text"
      by code_simp
    then have miss: "\<forall>j < 2. \<forall>kw \<in> set (snd (PRIORITY_KEYWORDS ! j)). \<not> sublist kw ?text"
      by simp
    from priority_first_matching_tier[of "\<lambda>_. Map.empty" 0 "''Password Reset''" "PStr ''A Question''"]
    obtain h' p where r: "triage_with_mock (\<lambda>_. Map.empty) 0 (PStr ''Password Reset'') (PStr ''A Question'') = Inr (h', 0)"
       "h' 0 ''ai_priority'' = Some (PStr p)"
       and f: "\<forall>i < length PRIORITY_KEYWORDS.
             (\<exists>kw \<in> set (snd (PRIORITY_KEYWORDS ! i)). sublist kw ?text)
             \<and> (\<forall>j < i. \<forall>kw \<in> set (snd (PRIORITY_KEYWORDS ! j)). \<not> sublist kw ?text)
             \<longrightarrow> p = fst (PRIORITY_KEYWORDS ! i)"
      by (elim exE conjE)
    from f[rule_format, of 2] len hit miss have "p = fst (PRIORITY_KEYWORDS ! 2)" by simp
    with tiers r show ?thesis by simp
  qed
  have c4: "\<exists>h'. triage_with_mock (\<lambda>_. Map.empty) 0 (PStr ''Hello world'') (PStr [])
          = Inr (h', 0) \<and> h' 0 ''ai_priority'' = Some (PStr ''Medium'')"
  proof -
    let ?text = "py_lower (''Hello world'' @ '' '' @ py_str (PStr []))"
    have "\<forall>j \<in> set [0..<3]. \<forall>kw \<in> set (snd (PRIORITY_KEYWORDS ! j)). \<not> sublist kw ?text"
      by code_simp
    then have miss: "\<forall>i < length PRIORITY_KEYWORDS. \<forall>kw \<in> set (snd (PRIORITY_KEYWORDS ! i)).
                       \<not> sublist kw ?text"
      by (simp add: len)
    from priority_first_matching_tier[of "\<lambda>_. Map.empty" 0 "''Hello world''" "PStr []"]
    obtain h' p where r: "triage_with_mock (\<lambda>_. Map.empty) 0 (PStr ''Hello world'') (PStr []) = Inr (h', 0)"
       "h' 0 ''ai_priority'' = Some (PStr p)"
       and f: "(\<forall>i < length PRIORITY_KEYWORDS. \<forall>kw \<in> set (snd (PRIORITY_KEYWORDS ! i)).
                  \<not> sublist kw ?text) \<longrightarrow> p = ''Medium''"
      by (elim exE conjE)
    from f miss have "p = ''Medium''" by (rule mp)
    with r show ?thesis by simp
  qed
  from c1 c2 c3 c4 show ?thesis by (intro conjI)
qed

text \<open>
  A ticket whose title is \<^verbatim>\<open>None\<close>: the classifier raises TypeError and writes no
  priority, although the description holds a keyword of the first tier.
\<close>

theorem priority_untitled_counterexample:
  "triage_ticket False no_backend heap_issue_untitled 0 = Inl TypeError
   \<and> heap_issue_untitled 0 ''summary'' = Some PNone
   \<and> list_ex (\<lambda>kw. sublist kw (py_lower ''None Production outage'')) (snd (PRIORITY_KEYWORDS ! 0))"
proof -
  have "triage_ticket False no_backend heap_issue_untitled 0 = Inl TypeError"
    by (simp add: triage_ticket_def ticket_text_def py_get_def triage_with_mock_def
          heap_issue_untitled_def Let_def)
  moreover have "heap_issue_untitled 0 ''summary'' = Some PNone"
    by (simp add: heap_issue_untitled_def)
  moreover have "list_ex (\<lambda>kw. sublist kw (py_lower ''None Production outage''))
                   (snd (PRIORITY_KEYWORDS ! 0))"
    by code_simp
  ultimately show ?thesis by (intro conjI)
qed

text \<open>
  Claim C3. For every ticket whose title is a string, the rule classifier writes as
  \<open>ai_category\<close> the first category, in the taxonomy order of the keyword dictionary,
  whose number of keywords occurring as substrings of the lowercased text is largest, and
  \<open>Other\<close> when every category has no match.
\<close>

theorem category_first_largest_count:
  "\<exists>h' c. triage_with_mock h ticket (PStr title) description = Inr (h', ticket)
     \<and> h' ticket ''ai_category'' = Some (PStr c)
     \<and> map fst CATEGORY_KEYWORDS =
         [''Network'', ''Database'', ''DevOps'', ''Security'', ''Frontend'', ''Backend'',
          ''Access'', ''Other'']
     \<and> (\<forall>i < length CATEGORY_KEYWORDS.
           0 < keyword_hits (py_lower (title @ '' '' @ py_str description))
                 (snd (CATEGORY_KEYWORDS ! i))
           \<and> (\<forall>j < length CATEGORY_KEYWORDS.
                 keyword_hits (py_lower (title @ '' '' @ py_str description))
                   (snd (CATEGORY_KEYWORDS ! j))
                 \<le> keyword_hits (py_lower (title @ '' '' @ py_str description))
                      (snd (CATEGORY_KEYWORDS ! i)))
           \<and> (\<forall>j < i.
                 keyword_hits (py_lower (title @ '' '' @ py_str description))
                   (snd (CATEGORY_KEYWORDS ! j))
                 < keyword_hits (py_lower (title @ '' '' @ py_str description))
                      (snd (CATEGORY_KEYWORDS ! i)))
           \<longrightarrow> c = fst (CATEGORY_KEYWORDS ! i))
     \<and> ((\<forall>i < length CATEGORY_KEYWORDS.
             keyword_hits (py_lower (title @ '' '' @ py_str description))
               (snd (CATEGORY_KEYWORDS ! i)) = 0)
          \<longrightarrow> c = ''Other'')"
proof -
  let ?text = "py_lower (title @ '' '' @ py_str description)"
  let ?res = "category_loop ?text CATEGORY_KEYWORDS (''Other'', 0)"
  let ?cnt = "\<lambda>i. keyword_hits ?text (snd (CATEGORY_KEYWORDS ! i))"
  have run: "\<exists>h'. triage_with_mock h ticket (PStr title) description = Inr (h', ticket)
     \<and> h' ticket ''ai_category'' = Some (PStr (fst ?res))"
    by (simp add: triage_with_mock_def Let_def)
  have order: "map fst CATEGORY_KEYWORDS =
         [''Network'', ''Database'', ''DevOps'', ''Security'', ''Frontend'', ''Backend'',
          ''Access'', ''Other'']"
    by (simp add: CATEGORY_KEYWORDS_def)
  have first: "\<forall>i < length CATEGORY_KEYWORDS.
           0 < ?cnt i \<and> (\<forall>j < length CATEGORY_KEYWORDS. ?cnt j \<le> ?cnt i)
           \<and> (\<forall>j < i. ?cnt j < ?cnt i)
           \<longrightarrow> fst ?res = fst (CATEGORY_KEYWORDS ! i)"
  proof (intro allI impI)
    fix i assume i: "i < length CATEGORY_KEYWORDS"
    assume h: "0 < ?cnt i \<and> (\<forall>j < length CATEGORY_KEYWORDS. ?cnt j \<le> ?cnt i)
           \<and> (\<forall>j < i. ?cnt j < ?cnt i)"
    from h have h1: "0 < count_matches ?text (snd (CATEGORY_KEYWORDS ! i))"
      and h2: "\<forall>j < length CATEGORY_KEYWORDS.
                 count_matches ?text (snd (CATEGORY_KEYWORDS ! j))
                 \<le> count_matches ?text (snd (CATEGORY_KEYWORDS ! i))"
      and h3: "\<forall>j < i. count_matches ?text (snd (CATEGORY_KEYWORDS ! j))
                 < count_matches ?text (snd (CATEGORY_KEYWORDS ! i))"
      by (simp_all add: count_matches_hits)
    from category_loop_first_max[OF i h1 h2 h3, of "''Other''"]
    show "fst ?res = fst (CATEGORY_KEYWORDS ! i)" by simp
  qed
  have none: "(\<forall>i < length CATEGORY_KEYWORDS. ?cnt i = 0) \<longrightarrow> fst ?res = ''Other''"
  proof
    assume h: "\<forall>i < length CATEGORY_KEYWORDS. ?cnt i = 0"
    have "\<forall>e \<in> set CATEGORY_KEYWORDS. count_matches ?text (snd e) \<le> 0"
    proof
      fix e assume "e \<in> set CATEGORY_KEYWORDS"
      then obtain i where "i < length CATEGORY_KEYWORDS" "CATEGORY_KEYWORDS ! i = e"
        by (auto simp: in_set_conv_nth)
      with h show "count_matches ?text (snd e) \<le> 0" by (auto simp: count_matches_hits)
    qed
    from category_loop_keep[OF this, of "''Other''"] show "fst ?res = ''Other''" by simp
  qed
  from run obtain h' where
    a: "triage_with_mock h ticket (PStr title) description = Inr (h', ticket)"
    and b: "h' ticket ''ai_category'' = Some (PStr (fst ?res))"
    by (elim exE conjE)
  from a b order first none show ?thesis
    by (intro exI[of _ h'] exI[of _ "fst ?res"] conjI)
qed

text \<open>
  Three runs. One Network keyword and four Database keywords, spread over an upper-case
  title and the description: the later category with the larger count wins. One Network
  and one Database keyword: the earlier category wins the tie. No keyword: \<open>Other\<close>.
\<close>

theorem category_first_largest_count_witness:
  "(\<exists>h'. triage_with_mock (\<lambda>_. Map.empty) 0 (PStr ''VPN: MySQL Query'') (PStr ''Replication lag'')
          = Inr (h', 0) \<and> h' 0 ''ai_category'' = Some (PStr ''Database''))
   \<and> (\<exists>h'. triage_with_mock (\<lambda>_. Map.empty) 0 (PStr ''VPN Database'') (PStr [])
          = Inr (h', 0) \<and> h' 0 ''ai_category'' = Some (PStr ''Network''))
   \<and> (\<exists>h'. triage_with_mock (\<lambda>_. Map.empty) 0 (PStr ''Hello world'') (PStr [])
          = Inr (h', 0) \<and> h' 0 ''ai_category'' = Some (PStr ''Other''))"
proof -
  have len: "length CATEGORY_KEYWORDS = 8" by (simp add: CATEGORY_KEYWORDS_def)
  have cats: "fst (CATEGORY_KEYWORDS ! 0) = ''Network''" "fst (CATEGORY_KEYWORDS ! 1) = ''Database''"
    by (simp_all add: CATEGORY_KEYWORDS_def)
  have c1: "\<exists>h'. triage_with_mock (\<lambda>_. Map.empty) 0 (PStr ''VPN: MySQL Query'') (PStr ''Replication lag'')
          = Inr (h', 0) \<and> h' 0 ''ai_category'' = Some (PStr ''Database'')"
  proof -
    let ?text = "py_lower (''VPN: MySQL Query'' @ '' '' @ py_str (PStr ''Replication lag''))"
    let ?cnt = "\<lambda>i. keyword_hits ?text (snd (CATEGORY_KEYWORDS ! i))"
    have counts: "map ?cnt [0..<8] = [1, 4, 0, 0, 0, 0, 0, 0]"
      by code_simp
    have pos: "0 < ?cnt 1" by code_simp
    have "\<forall>j \<in> set [0..<8]. ?cnt j \<le> ?cnt 1" by code_simp
    then have le: "\<forall>j < length CATEGORY_KEYWORDS. ?cnt j \<le> ?cnt 1" by (simp add: len)
    have "\<forall>j \<in> set [0..<1]. ?cnt j < ?cnt 1" by code_simp
    then have lt: "\<forall>j < 1. ?cnt j < ?cnt 1" by simp
    from category_first_largest_count[of "\<lambda>_. Map.empty" 0 "''VPN: MySQL Query''" "PStr ''Replication lag''"]
    obtain h' c where r: "triage_with_mock (\<lambda>_. Map.empty) 0 (PStr ''VPN: MySQL Query'') (PStr ''Replication lag'') = Inr (h', 0)"
       "h' 0 ''ai_category'' = Some (PStr c)"
       and f: "\<forall>i < length CATEGORY_KEYWORDS.
           0 < ?cnt i \<and> (\<forall>j < length CATEGORY_KEYWORDS. ?cnt j \<le> ?cnt i)
           \<and> (\<forall>j < i. ?cnt j < ?cnt i)
           \<longrightarrow> c = fst (CATEGORY_KEYWORDS ! i)"
      by (elim exE conjE)
    from f[rule_format, of 1] len pos le lt have "c = fst (CATEGORY_KEYWORDS ! 1)" by simp
    with cats r show ?thesis by simp
  qed
  have c2: "\<exists>h'. triage_with_mock (\<lambda>_. Map.empty) 0 (PStr ''VPN Database'') (PStr [])
          = Inr (h', 0) \<and> h' 0 ''ai_category'' = Some (PStr ''Network'')"
  proof -
    let ?text = "py_lower (''VPN Database'' @ '' '' @ py_str (PStr []))"
    let ?cnt = "\<lambda>i. keyword_hits ?text (snd (CATEGORY_KEYWORDS ! i))"
    have counts: "map ?cnt [0..<8] = [1, 1, 0, 0, 0, 0, 0, 0]"
      by code_simp
    have pos: "0 < ?cnt 0" by code_simp
    have "\<forall>j \<in> set [0..<8]. ?cnt j \<le> ?cnt 0" by code_simp
    then have le: "\<forall>j < length CATEGORY_KEYWORDS. ?cnt j \<le> ?cnt 0" by (simp add: len)
    from category_first_largest_count[of "\<lambda>_. Map.empty" 0 "''VPN Database''" "PStr []"]
    obtain h' c where r: "triage_with_mock (\<lambda>_. Map.empty) 0 (PStr ''VPN Database'') (PStr []) = Inr (h', 0)"
       "h' 0 ''ai_category'' = Some (PStr c)"
       and f: "\<forall>i < length CATEGORY_KEYWORDS.
           0 < ?cnt i \<and> (\<forall>j < length CATEGORY_KEYWORDS. ?cnt j \<le> ?cnt i)
           \<and> (\<forall>j < i. ?cnt j < ?cnt i)
           \<longrightarrow> c = fst (CATEGORY_KEYWORDS ! i)"
      by (elim exE conjE)
    from f[rule_format, of 0] len pos le have "c = fst (CATEGORY_KEYWORDS ! 0)" by simp
    with cats r show ?thesis by simp
  qed
  have c3: "\<exists>h'. triage_with_mock (\<lambda>_. Map.empty) 0 (PStr ''Hello world'') (PStr [])
          = Inr (h', 0) \<and> h' 0 ''ai_category'' = Some (PStr ''Other'')"
  proof -
    let ?text = "py_lower (''Hello world'' @ '' '' @ py_str (PStr []))"
    let ?cnt = "\<lambda>i. keyword_hits ?text (snd (CATEGORY_KEYWORDS ! i))"
    have "\<forall>j \<in> set [0..<8]. ?cnt j = 0" by code_simp
    then have zero: "\<forall>i < length CATEGORY_KEYWORDS. ?cnt i = 0" by (simp add: len)
    from category_first_largest_count[of "\<lambda>_. Map.empty" 0 "''Hello world''" "PStr []"]
    obtain h' c where r: "triage_with_mock (\<lambda>_. Map.empty) 0 (PStr ''Hello world'') (PStr []) = Inr (h', 0)"
       "h' 0 ''ai_category'' = Some (PStr c)"
       and f: "(\<forall>i < length CATEGORY_KEYWORDS. ?cnt i = 0) \<longrightarrow> c = ''Other''"
      by (elim exE conjE)
    from f zero have "c = ''Other''" by (rule mp)
    with r show ?thesis by simp
  qed
  from c1 c2 c3 show ?thesis by (intro conjI)
qed

text \<open>
  A ticket whose title is \<^verbatim>\<open>None\<close>: the classifier raises TypeError and writes no
  category, although two Network keywords occur in the description.
\<close>

theorem category_untitled_counterexample:
  "triage_ticket False no_backend heap_incident_untitled 0 = Inl TypeError
   \<and> heap_incident_untitled 0 ''short_description'' = Some PNone
   \<and> keyword_hits (py_lower ''None VPN connection drops'') (snd (CATEGORY_KEYWORDS ! 0)) = 2"
proof -
  have "triage_ticket False no_backend heap_incident_untitled 0 = Inl TypeError"
    by (simp add: triage_ticket_def ticket_text_def py_get_def triage_with_mock_def
          heap_incident_untitled_def Let_def)
  moreover have "heap_incident_untitled 0 ''short_description'' = Some PNone"
    by (simp add: heap_incident_untitled_def)
  moreover have "keyword_hits (py_lower ''None VPN connection drops'')
                   (snd (CATEGORY_KEYWORDS ! 0)) = 2"
    by code_simp
  ultimately show ?thesis by (intro conjI)
qed

lemma triage_with_mock_frame:
  "\<exists>h'. triage_with_mock h ticket (PStr title) description = Inr (h', ticket)
     \<and> (\<forall>r. r \<noteq> ticket \<longrightarrow> h' r = h r)
     \<and> (\<forall>k. k \<notin> enrichment_keys \<longrightarrow> h' ticket k = h ticket k)
     \<and> dom (h' ticket) = dom (h ticket) \<union> enrichment_keys"
  by (auto simp: triage_with_mock_def Let_def enrichment_keys_def)

text \<open>
  Claim C10. Rule-based classification of a ticket whose title is a string returns the
  reference it was given, writes exactly the five enrichment keys of that dictionary, and
  leaves every other key of it, and every other dictionary, unchanged.
\<close>

theorem triage_frame:
  assumes "ticket_text (h ticket) \<noteq> PNone"
  shows "\<exists>h'. triage_ticket False triage_with_openai h ticket = Inr (h', ticket)
     \<and> (\<forall>r. r \<noteq> ticket \<longrightarrow> h' r = h r)
     \<and> (\<forall>k. k \<notin> enrichment_keys \<longrightarrow> h' ticket k = h ticket k)
     \<and> dom (h' ticket) = dom (h ticket) \<union> enrichment_keys"
proof -
  from assms obtain title where t: "ticket_text (h ticket) = PStr title"
    by (cases "ticket_text (h ticket)") auto
  have "triage_ticket False triage_with_openai h ticket
      = triage_with_mock h ticket (PStr title) (py_get (h ticket) ''description'' (PStr title))"
    by (simp add: triage_ticket_def t Let_def)
  with triage_with_mock_frame[of h ticket title "py_get (h ticket) ''description'' (PStr title)"]
  show ?thesis by simp
qed

theorem triage_frame_witness:
  "\<exists>h'. triage_ticket False (\<lambda>h r s d. Inl h)
          (\<lambda>_. [''source'' \<mapsto> PStr ''Jira'', ''summary'' \<mapsto> PStr ''Hello world'',
                 ''assignee'' \<mapsto> PNone]) 0 = Inr (h', 0)
        \<and> h' 0 ''assignee'' = Some PNone
        \<and> h' 0 ''summary'' = Some (PStr ''Hello world'')
        \<and> h' 1 ''ai_category'' = None
        \<and> dom (h' 0) = {''source'', ''summary'', ''assignee''} \<union> enrichment_keys"
proof -
  let ?t = "[''source'' \<mapsto> PStr ''Jira'', ''summary'' \<mapsto> PStr ''Hello world'',
                 ''assignee'' \<mapsto> PNone]"
  have pre: "ticket_text ((\<lambda>_. ?t) (0::nat)) \<noteq> PNone"
    by (simp add: ticket_text_def py_get_def)
  from triage_frame[of "\<lambda>_. ?t" 0 "\<lambda>h r s d. Inl h", OF pre]
  obtain h' where r: "triage_ticket False (\<lambda>h r s d. Inl h) (\<lambda>_. ?t) 0 = Inr (h', 0)"
    and o: "\<forall>r. r \<noteq> 0 \<longrightarrow> h' r = ?t"
    and k: "\<forall>k. k \<notin> enrichment_keys \<longrightarrow> h' 0 k = ?t k"
    and d: "dom (h' 0) = dom ?t \<union> enrichment_keys"
    by (elim exE conjE)
  have k1: "h' 0 ''assignee'' = Some PNone"
    using k[rule_format, of "''assignee''"] by (simp add: enrichment_keys_def)
  have k2: "h' 0 ''summary'' = Some (PStr ''Hello world'')"
    using k[rule_format, of "''summary''"] by (simp add: enrichment_keys_def)
  have o1: "h' 1 ''ai_category'' = None"
    using o[rule_format, of 1] by simp
  have d1: "dom (h' 0) = {''source'', ''summary'', ''assignee''} \<union> enrichment_keys"
    using d by auto
  from r k1 k2 o1 d1 show ?thesis
    by (intro exI[of _ h'] conjI)
qed

text \<open>
  A ticket whose title is \<^verbatim>\<open>None\<close>: no record is returned and none of the five
  keys is written.
\<close>

theorem triage_frame_untitled_counterexample:
  "triage_ticket False no_backend heap_issue_bare 0 = Inl TypeError
   \<and> ticket_text (heap_issue_bare 0) = PNone
   \<and> dom (heap_issue_bare 0) \<inter> enrichment_keys = {}"
proof -
  have "triage_ticket False no_backend heap_issue_bare 0 = Inl TypeError"
    by (simp add: triage_ticket_def ticket_text_def py_get_def triage_with_mock_def
          heap_issue_bare_def Let_def)
  moreover have "ticket_text (heap_issue_bare 0) = PNone"
    by (simp add: ticket_text_def py_get_def heap_issue_bare_def)
  moreover have "dom (heap_issue_bare 0) \<inter> enrichment_keys = {}"
    by (auto simp: heap_issue_bare_def enrichment_keys_def)
  ultimately show ?thesis by (intro conjI)
qed

section \<open>Properties of the assignment engine\<close>

subsection \<open>The scoring loop\<close>

lemma first_argmax_exists:
  fixes f :: "'a \<Rightarrow> 'b::linorder"
  assumes "xs \<noteq> []"
  shows "\<exists>i<length xs. (\<forall>j<length xs. f (xs ! j) \<le> f (xs ! i)) \<and> (\<forall>j<i. f (xs ! j) < f (xs ! i))"
proof -
  let ?m = "Max (f ` set xs)"
  have fin: "finite (f ` set xs)" by simp
  have ne: "f ` set xs \<noteq> {}" using assms by simp
  from Max_in[OF fin ne] obtain k where k: "k < length xs" "f (xs ! k) = ?m"
    by (auto simp: in_set_conv_nth)
  define i where "i = (LEAST k. k < length xs \<and> f (xs ! k) = ?m)"
  have i: "i < length xs \<and> f (xs ! i) = ?m"
    unfolding i_def by (rule LeastI[of "\<lambda>k. k < length xs \<and> f (xs ! k) = ?m" k]) (use k in simp)
  have le: "\<forall>j<length xs. f (xs ! j) \<le> f (xs ! i)"
    using i fin by (simp add: Max_ge)
  have lt: "\<forall>j<i. f (xs ! j) < f (xs ! i)"
  proof (intro allI impI)
    fix j assume j: "j < i"
    then have jl: "j < length xs" using i by simp
    have "\<not> (j < length xs \<and> f (xs ! j) = ?m)"
      using j unfolding i_def by (rule not_less_Least)
    with jl have "f (xs ! j) \<noteq> ?m" by simp
    moreover have "f (xs ! j) \<le> ?m" using jl fin by (simp add: Max_ge)
    ultimately show "f (xs ! j) < f (xs ! i)" using i by simp
  qed
  from i le lt show ?thesis by blast
qed

lemma scoring_loop_step:
  assumes "survives w ov e"
  shows "scoring_loop w req sw ww ov (e # es) (b, s) =
     (if combined w req sw ww e > s
      then scoring_loop w req sw ww ov es (Some (name e), combined w req sw ww e)
      else scoring_loop w req sw ww ov es (b, s))"
proof -
  from assms have a: "get_availability_score e \<noteq> 0"
    and c: "calculate_workload_score w e \<noteq> 0 \<or> ov"
    by (auto simp: survives_def)
  show ?thesis
    using a c
    by (cases ov; cases "calculate_workload_score w e = 0";
        cases "calculate_skill_match_score e req = 0")
       (simp_all add: Let_def combined_def)
qed

lemma scoring_loop_skip:
  assumes "\<not> survives w ov e"
  shows "scoring_loop w req sw ww ov (e # es) (b, s) = scoring_loop w req sw ww ov es (b, s)"
proof -
  from assms have "get_availability_score e = 0 \<or> (calculate_workload_score w e = 0 \<and> \<not> ov)"
    by (auto simp: survives_def)
  then show ?thesis
    by (cases ov; cases "calculate_workload_score w e = 0"; cases "get_availability_score e = 0")
       (simp_all add: Let_def)
qed

text \<open>The scoring loop only looks at the engineers that pass the candidate filter.\<close>

lemma scoring_loop_filter:
  "scoring_loop w req sw ww ov es acc = scoring_loop w req sw ww ov (filter (survives w ov) es) acc"
proof (induction es arbitrary: acc)
  case Nil
  then show ?case by simp
next
  case (Cons e es)
  obtain b s where acc: "acc = (b, s)" by (cases acc)
  show ?case
  proof (cases "survives w ov e")
    case True
    then show ?thesis using Cons.IH acc
      by (simp add: scoring_loop_step del: scoring_loop.simps)
  next
    case False
    then show ?thesis using Cons.IH acc
      by (simp add: scoring_loop_skip del: scoring_loop.simps)
  qed
qed

lemma scoring_loop_keep:
  "\<forall>e \<in> set es. survives w ov e \<Longrightarrow> \<forall>e \<in> set es. combined w req sw ww e \<le> s \<Longrightarrow>
   scoring_loop w req sw ww ov es (b, s) = (b, s)"
proof (induction es)
  case Nil
  then show ?case by simp
next
  case (Cons e es)
  then have "survives w ov e" "\<not> combined w req sw ww e > s" by auto
  then show ?case using Cons by (simp add: scoring_loop_step del: scoring_loop.simps)
qed

lemma scoring_loop_first_max:
  "\<forall>e \<in> set es. survives w ov e \<Longrightarrow> i < length es \<Longrightarrow> s < combined w req sw ww (es ! i) \<Longrightarrow>
   \<forall>j < length es. combined w req sw ww (es ! j) \<le> combined w req sw ww (es ! i) \<Longrightarrow>
   \<forall>j < i. combined w req sw ww (es ! j) < combined w req sw ww (es ! i) \<Longrightarrow>
   scoring_loop w req sw ww ov es (b, s) = (Some (name (es ! i)), combined w req sw ww (es ! i))"
proof (induction es arbitrary: i b s)
  case Nil
  then show ?case by simp
next
  case (Cons e es)
  have surv: "survives w ov e" and survs: "\<forall>e \<in> set es. survives w ov e"
    using Cons.prems(1) by auto
  show ?case
  proof (cases i)
    case 0
    have "\<forall>x \<in> set es. combined w req sw ww x \<le> combined w req sw ww e"
    proof
      fix x assume "x \<in> set es"
      then obtain k where k: "k < length es" "es ! k = x" by (auto simp: in_set_conv_nth)
      from Cons.prems(4)[rule_format, of "Suc k"] k 0
      show "combined w req sw ww x \<le> combined w req sw ww e" by simp
    qed
    from scoring_loop_keep[OF survs this] Cons.prems(3) 0 surv
    show ?thesis by (simp add: scoring_loop_step del: scoring_loop.simps)
  next
    case (Suc k)
    let ?n = "combined w req sw ww (es ! k)"
    from Suc Cons.prems(2) have k: "k < length es" by simp
    from Cons.prems(5)[rule_format, of 0] Suc have head: "combined w req sw ww e < ?n" by simp
    have le: "\<forall>j < length es. combined w req sw ww (es ! j) \<le> ?n"
    proof (intro allI impI)
      fix j assume "j < length es"
      with Cons.prems(4)[rule_format, of "Suc j"] Suc show "combined w req sw ww (es ! j) \<le> ?n" by simp
    qed
    have lt: "\<forall>j < k. combined w req sw ww (es ! j) < ?n"
    proof (intro allI impI)
      fix j assume "j < k"
      with Cons.prems(5)[rule_format, of "Suc j"] Suc show "combined w req sw ww (es ! j) < ?n" by simp
    qed
    show ?thesis
    proof (cases "s < combined w req sw ww e")
      case True
      from Cons.IH[OF survs k head le lt] True surv Suc show ?thesis
        by (simp add: scoring_loop_step del: scoring_loop.simps)
    next
      case False
      from Cons.prems(3) Suc have "s < ?n" by simp
      from Cons.IH[OF survs k this le lt] False surv Suc show ?thesis
        by (simp add: scoring_loop_step del: scoring_loop.simps)
    qed
  qed
qed

lemma survives_load:
  assumes "survives w False e"
  shows "int (current_load w (name e)) < max_workload e"
proof (rule ccontr)
  assume "\<not> int (current_load w (name e)) < max_workload e"
  then have "calculate_workload_score w e = 0"
    by (simp add: calculate_workload_score_def Let_def)
  with assms show False by (simp add: survives_def)
qed

lemma normal_selection_first_max:
  assumes some: "normal_selection st t sw ww ov \<noteq> None"
  shows "\<exists>i < length (candidates st ov).
           normal_selection st t sw ww ov = Some (name (candidates st ov ! i))
           \<and> - 1 < combined (workload st) (ticket_required_skills t) sw ww (candidates st ov ! i)
           \<and> (\<forall>j < length (candidates st ov).
                 combined (workload st) (ticket_required_skills t) sw ww (candidates st ov ! j)
                 \<le> combined (workload st) (ticket_required_skills t) sw ww (candidates st ov ! i))
           \<and> (\<forall>j < i.
                 combined (workload st) (ticket_required_skills t) sw ww (candidates st ov ! j)
                 < combined (workload st) (ticket_required_skills t) sw ww (candidates st ov ! i))"
proof -
  let ?w = "workload st" and ?req = "ticket_required_skills t" and ?cs = "candidates st ov"
  let ?f = "combined ?w ?req sw ww"
  have surv: "\<forall>e \<in> set ?cs. survives ?w ov e" by (simp add: candidates_def)
  have sel: "normal_selection st t sw ww ov = fst (scoring_loop ?w ?req sw ww ov ?cs (None, - 1))"
    unfolding normal_selection_def candidates_def by (subst scoring_loop_filter) (rule refl)
  have ne: "?cs \<noteq> []"
  proof
    assume "?cs = []"
    with sel have "normal_selection st t sw ww ov = None" by simp
    with some show False by simp
  qed
  from first_argmax_exists[OF ne, of ?f] obtain i where i: "i < length ?cs"
    and le: "\<forall>j < length ?cs. ?f (?cs ! j) \<le> ?f (?cs ! i)"
    and lt: "\<forall>j < i. ?f (?cs ! j) < ?f (?cs ! i)" by blast
  have gt: "- 1 < ?f (?cs ! i)"
  proof (rule ccontr)
    assume n: "\<not> - 1 < ?f (?cs ! i)"
    have "\<forall>e \<in> set ?cs. ?f e \<le> - 1"
    proof
      fix e assume "e \<in> set ?cs"
      then obtain j where "j < length ?cs" "?cs ! j = e" by (auto simp: in_set_conv_nth)
      with le have "?f e \<le> ?f (?cs ! i)" by blast
      with n show "?f e \<le> - 1" by simp
    qed
    from scoring_loop_keep[OF surv this, of None] sel
    have "normal_selection st t sw ww ov = None" by simp
    with some show False by simp
  qed
  from scoring_loop_first_max[OF surv i gt le lt, of None] sel
  have "normal_selection st t sw ww ov = Some (name (?cs ! i))" by simp
  with i gt le lt show ?thesis by blast
qed

lemma normal_selection_none:
  assumes none: "normal_selection st t sw ww ov = None"
  shows "\<forall>e \<in> set (candidates st ov).
           combined (workload st) (ticket_required_skills t) sw ww e \<le> - 1"
proof (rule ccontr)
  let ?w = "workload st" and ?req = "ticket_required_skills t" and ?cs = "candidates st ov"
  let ?f = "combined ?w ?req sw ww"
  assume "\<not> (\<forall>e \<in> set ?cs. ?f e \<le> - 1)"
  then obtain e where e: "e \<in> set ?cs" and big: "- 1 < ?f e" by auto
  then have ne: "?cs \<noteq> []" by auto
  have surv: "\<forall>e \<in> set ?cs. survives ?w ov e" by (simp add: candidates_def)
  have sel: "normal_selection st t sw ww ov = fst (scoring_loop ?w ?req sw ww ov ?cs (None, - 1))"
    unfolding normal_selection_def candidates_def by (subst scoring_loop_filter) (rule refl)
  from first_argmax_exists[OF ne, of ?f] obtain i where i: "i < length ?cs"
    and le: "\<forall>j < length ?cs. ?f (?cs ! j) \<le> ?f (?cs ! i)"
    and lt: "\<forall>j < i. ?f (?cs ! j) < ?f (?cs ! i)" by blast
  from e obtain j where "j < length ?cs" "?cs ! j = e" by (auto simp: in_set_conv_nth)
  with le have "?f e \<le> ?f (?cs ! i)" by blast
  with big have gt: "- 1 < ?f (?cs ! i)" by simp
  from scoring_loop_first_max[OF surv i gt le lt, of None] sel
  have "normal_selection st t sw ww ov \<noteq> None" by simp
  with none show False by simp
qed

lemma normal_selection_no_candidates:
  assumes "candidates st ov = []"
  shows "normal_selection st t sw ww ov = None"
proof -
  have "normal_selection st t sw ww ov
      = fst (scoring_loop (workload st) (ticket_required_skills t) sw ww ov (candidates st ov) (None, - 1))"
    unfolding normal_selection_def candidates_def by (subst scoring_loop_filter) (rule refl)
  with assms show ?thesis by simp
qed

subsection \<open>The fallback loop\<close>

lemma least_loaded_keep:
  "\<forall>e \<in> set es. m \<le> current_load w (name e) \<Longrightarrow>
   least_loaded_loop w es (Some m, c) = (Some m, c)"
  by (induction es) (auto simp: Let_def)

lemma least_loaded_first_min:
  "i < length es \<Longrightarrow>
   (case m0 of None \<Rightarrow> True | Some m \<Rightarrow> current_load w (name (es ! i)) < m) \<Longrightarrow>
   \<forall>j < length es. current_load w (name (es ! i)) \<le> current_load w (name (es ! j)) \<Longrightarrow>
   \<forall>j < i. current_load w (name (es ! i)) < current_load w (name (es ! j)) \<Longrightarrow>
   least_loaded_loop w es (m0, c) = (Some (current_load w (name (es ! i))), Some (name (es ! i)))"
proof (induction es arbitrary: i m0 c)
  case Nil
  then show ?case by simp
next
  case (Cons e es)
  let ?ld = "\<lambda>x. current_load w (name x)"
  show ?case
  proof (cases i)
    case 0
    have "\<forall>x \<in> set es. ?ld e \<le> ?ld x"
    proof
      fix x assume "x \<in> set es"
      then obtain k where k: "k < length es" "es ! k = x" by (auto simp: in_set_conv_nth)
      from Cons.prems(3)[rule_format, of "Suc k"] k 0 show "?ld e \<le> ?ld x" by simp
    qed
    moreover have "case m0 of None \<Rightarrow> True | Some m \<Rightarrow> ?ld e < m"
      using Cons.prems(2) 0 by (cases m0) simp_all
    ultimately show ?thesis using 0 by (simp add: Let_def least_loaded_keep)
  next
    case (Suc k)
    from Suc Cons.prems(1) have k: "k < length es" by simp
    from Cons.prems(4)[rule_format, of 0] Suc have head: "?ld (es ! k) < ?ld e" by simp
    have le: "\<forall>j < length es. ?ld (es ! k) \<le> ?ld (es ! j)"
    proof (intro allI impI)
      fix j assume "j < length es"
      with Cons.prems(3)[rule_format, of "Suc j"] Suc show "?ld (es ! k) \<le> ?ld (es ! j)" by simp
    qed
    have lt: "\<forall>j < k. ?ld (es ! k) < ?ld (es ! j)"
    proof (intro allI impI)
      fix j assume "j < k"
      with Cons.prems(4)[rule_format, of "Suc j"] Suc show "?ld (es ! k) < ?ld (es ! j)" by simp
    qed
    show ?thesis
    proof (cases "case m0 of None \<Rightarrow> True | Some m \<Rightarrow> ?ld e < m")
      case True
      have "case Some (?ld e) of None \<Rightarrow> True | Some m \<Rightarrow> ?ld (es ! k) < m" using head by simp
      from Cons.IH[OF k this le lt] True Suc show ?thesis by (simp add: Let_def)
    next
      case False
      have "case m0 of None \<Rightarrow> True | Some m \<Rightarrow> ?ld (es ! k) < m"
        using Cons.prems(2) Suc by (cases m0) simp_all
      from Cons.IH[OF k this le lt] False Suc show ?thesis by (simp add: Let_def)
    qed
  qed
qed

lemma first_argmin_exists:
  fixes f :: "'a \<Rightarrow> nat"
  assumes "xs \<noteq> []"
  shows "\<exists>i<length xs. (\<forall>j<length xs. f (xs ! i) \<le> f (xs ! j)) \<and> (\<forall>j<i. f (xs ! i) < f (xs ! j))"
proof -
  from first_argmax_exists[OF assms, of "\<lambda>x. - int (f x)"]
  show ?thesis by simp
qed

lemma least_loaded_result:
  assumes "es \<noteq> []"
  shows "\<exists>i < length es.
           snd (least_loaded_loop w es (None, None)) = Some (name (es ! i))
           \<and> (\<forall>j < length es. current_load w (name (es ! i)) \<le> current_load w (name (es ! j)))
           \<and> (\<forall>j < i. current_load w (name (es ! i)) < current_load w (name (es ! j)))"
proof -
  from first_argmin_exists[OF assms, of "\<lambda>x. current_load w (name x)"]
  obtain i where i: "i < length es"
    and le: "\<forall>j < length es. current_load w (name (es ! i)) \<le> current_load w (name (es ! j))"
    and lt: "\<forall>j < i. current_load w (name (es ! i)) < current_load w (name (es ! j))" by blast
  have "case (None :: nat option) of None \<Rightarrow> True | Some m \<Rightarrow> current_load w (name (es ! i)) < m"
    by simp
  from least_loaded_first_min[OF i this le lt, of None]
  have "snd (least_loaded_loop w es (None, None)) = Some (name (es ! i))" by simp
  with i le lt show ?thesis by blast
qed

lemma fallback_candidates_eq:
  "fallback_candidates st =
     (if \<exists>e \<in> set (engineers st). get_availability_score e = 1
      then filter (\<lambda>e. get_availability_score e = 1) (engineers st)
      else engineers st)"
  by (auto simp: fallback_candidates_def Let_def filter_empty_conv)

lemma fallback_candidates_subset: "set (fallback_candidates st) \<subseteq> set (engineers st)"
  by (auto simp: fallback_candidates_def Let_def)

lemma fallback_candidates_nonempty: "engineers st \<noteq> [] \<Longrightarrow> fallback_candidates st \<noteq> []"
  by (auto simp: fallback_candidates_def Let_def)

subsection \<open>The workload dictionary\<close>

lemma set_update_subset: "set (AList.update k v al) \<subseteq> insert (k, v) (set al)"
  by (induction al) auto

lemma fold_update_keys:
  "fst ` set (fold (\<lambda>eng w. AList.update (name eng) 0 w) engs w0) = fst ` set w0 \<union> name ` set engs"
proof (induction engs arbitrary: w0)
  case Nil
  then show ?case by simp
next
  case (Cons e engs)
  show ?case by (auto simp: Cons.IH dom_update)
qed

lemma fold_update_distinct:
  "distinct (map fst w0) \<Longrightarrow>
   distinct (map fst (fold (\<lambda>eng w. AList.update (name eng) 0 w) engs w0))"
  by (induction engs arbitrary: w0) (simp_all add: distinct_update)

lemma fold_update_zero:
  "\<forall>p \<in> set w0. snd p = 0 \<Longrightarrow>
   \<forall>p \<in> set (fold (\<lambda>eng w. AList.update (name eng) (0::nat) w) engs w0). snd p = 0"
proof (induction engs arbitrary: w0)
  case Nil
  then show ?case by simp
next
  case (Cons e engs)
  have "\<forall>p \<in> set (AList.update (name e) 0 w0). snd p = 0"
    using Cons.prems set_update_subset[of "name e" 0 w0] by auto
  from Cons.IH[OF this] show ?case by simp
qed

lemma fresh_workload_keys: "fst ` set (fresh_workload engs) = name ` set engs"
  by (simp add: fresh_workload_def fold_update_keys)

lemma fresh_workload_distinct: "distinct (map fst (fresh_workload engs))"
  by (simp add: fresh_workload_def fold_update_distinct)

lemma fresh_workload_sum: "sum_list (map snd (fresh_workload engs)) = 0"
proof -
  have "\<forall>p \<in> set (fresh_workload engs). snd p = 0"
    unfolding fresh_workload_def by (rule fold_update_zero) simp
  then show ?thesis by (simp add: sum_list_eq_0_iff)
qed

lemma consistent_reset: "consistent (reset_workload st)"
  by (simp add: consistent_def reset_workload_def fresh_workload_keys fresh_workload_distinct)

lemma consistent_init: "consistent (init_engine engs rows)"
  by (simp add: consistent_def init_engine_def fresh_workload_keys fresh_workload_distinct)

lemma sum_update_existing:
  fixes w :: "(string \<times> nat) list"
  shows "distinct (map fst w) \<Longrightarrow> map_of w n = Some c \<Longrightarrow>
   sum_list (map snd (AList.update n (c + 1) w)) = sum_list (map snd w) + 1"
proof (induction w)
  case Nil
  then show ?case by simp
next
  case (Cons p w)
  obtain k v where p: "p = (k, v)" by (cases p)
  show ?case
  proof (cases "k = n")
    case True
    with Cons.prems p show ?thesis by simp
  next
    case False
    with Cons p show ?thesis by simp
  qed
qed

lemma current_load_update:
  "current_load (AList.update n v w) m = (if m = n then v else current_load w m)"
  by (simp add: current_load_def update_conv')

lemma key_has_counter:
  "n \<in> fst ` set w \<Longrightarrow> map_of w n = Some (current_load w n)"
proof -
  assume "n \<in> fst ` set w"
  then obtain c where "map_of w n = Some c"
    by (metis domD dom_map_of_conv_image_fst)
  then show ?thesis by (simp add: current_load_def)
qed

subsection \<open>What \<open>find_best_engineer\<close> returns\<close>

lemma normal_selection_ignores [simp]:
  "normal_selection (st\<lparr>current_ticket_id := x\<rparr>) t sw ww ov = normal_selection st t sw ww ov"
  by (simp add: normal_selection_def)

lemma candidates_ignores [simp]:
  "candidates (st\<lparr>current_ticket_id := x\<rparr>) ov = candidates st ov"
  by (simp add: candidates_def)

lemma fallback_candidates_ignores [simp]:
  "fallback_candidates (st\<lparr>current_ticket_id := x\<rparr>) = fallback_candidates st"
  by (simp add: fallback_candidates_def Let_def)

lemma candidates_subset: "set (candidates st ov) \<subseteq> set (engineers st)"
  by (auto simp: candidates_def)

lemma normal_selection_in_candidates:
  assumes "normal_selection st t sw ww ov = Some n"
  shows "\<exists>e \<in> set (candidates st ov). name e = n"
proof -
  from assms have "normal_selection st t sw ww ov \<noteq> None" by simp
  from normal_selection_first_max[OF this] assms
  obtain i where "i < length (candidates st ov)" "n = name (candidates st ov ! i)" by auto
  then show ?thesis using nth_mem by metis
qed

lemma fallback_choice_ignores [simp]:
  "fallback_choice (st\<lparr>current_ticket_id := x\<rparr>) = fallback_choice st"
  by (simp add: fallback_choice_def)

lemma fallback_choice_empty: "engineers st = [] \<Longrightarrow> fallback_choice st = None"
  by (simp add: fallback_choice_def fallback_candidates_def)

lemma fallback_choice_in_roster:
  assumes "engineers st \<noteq> []"
  shows "\<exists>e \<in> set (engineers st). fallback_choice st = Some (name e)"
proof -
  from least_loaded_result[OF fallback_candidates_nonempty[OF assms], of "workload st"]
  obtain i where i: "i < length (fallback_candidates st)"
    and c: "fallback_choice st = Some (name (fallback_candidates st ! i))"
    unfolding fallback_choice_def by blast
  from i have "fallback_candidates st ! i \<in> set (engineers st)"
    using fallback_candidates_subset nth_mem by blast
  with c show ?thesis by blast
qed

lemma find_best_engineer_normal:
  "normal_selection st t sw ww ov = Some n \<Longrightarrow> find_best_engineer st t sw ww ov = (Some n, st)"
  by (simp add: find_best_engineer_def)

lemma find_best_engineer_fallback:
  "normal_selection st t sw ww ov = None \<Longrightarrow>
   find_best_engineer st t sw ww ov =
     (fallback_choice st,
      st\<lparr>reassign_log := reassign_log st @
          [\<lparr>ticket_id = (case current_ticket_id st of None \<Rightarrow> ''Unknown'' | Some i \<Rightarrow> i),
            assigned_engineer = fallback_choice st, is_fallback = True,
            reason = fallback_reason\<rparr>]\<rparr>)"
  by (simp add: find_best_engineer_def log_assignment_def Let_def)

lemma find_best_engineer_state:
  "engineers (snd (find_best_engineer st t sw ww ov)) = engineers st
   \<and> workload (snd (find_best_engineer st t sw ww ov)) = workload st
   \<and> current_ticket_id (snd (find_best_engineer st t sw ww ov)) = current_ticket_id st"
  by (cases "normal_selection st t sw ww ov")
     (simp_all add: find_best_engineer_normal find_best_engineer_fallback)

lemma find_best_engineer_in_roster:
  assumes "fst (find_best_engineer st t sw ww ov) = Some n"
  shows "n \<in> name ` set (engineers st)"
proof (cases "normal_selection st t sw ww ov")
  case None
  with assms have c: "fallback_choice st = Some n" by (simp add: find_best_engineer_fallback)
  then have "engineers st \<noteq> []" using fallback_choice_empty by fastforce
  from fallback_choice_in_roster[OF this] c show ?thesis by auto
next
  case (Some m)
  with assms have "m = n" by (simp add: find_best_engineer_normal)
  with normal_selection_in_candidates[OF Some] candidates_subset show ?thesis by blast
qed

lemma find_best_engineer_some:
  assumes "engineers st \<noteq> []"
  shows "\<exists>e \<in> set (engineers st). fst (find_best_engineer st t sw ww ov) = Some (name e)"
proof (cases "normal_selection st t sw ww ov")
  case None
  with fallback_choice_in_roster[OF assms] show ?thesis by (simp add: find_best_engineer_fallback)
next
  case (Some m)
  with normal_selection_in_candidates[OF Some] candidates_subset show ?thesis
    by (auto simp: find_best_engineer_normal)
qed

lemma find_best_engineer_none:
  assumes "engineers st = []"
  shows "fst (find_best_engineer st t sw ww ov) = None"
proof -
  have "candidates st ov = []" using assms by (simp add: candidates_def)
  from normal_selection_no_candidates[OF this] fallback_choice_empty[OF assms]
  show ?thesis by (simp add: find_best_engineer_fallback)
qed

subsection \<open>One assignment\<close>

lemma selected_has_counter:
  assumes "consistent st" "n \<in> name ` set (engineers st)"
  shows "map_of (workload st) n = Some (current_load (workload st) n)"
  using assms by (intro key_has_counter) (auto simp: consistent_def)

lemma assign_ticket_normal:
  assumes c: "consistent st" and sel: "normal_selection st t sw ww ov = Some n"
  shows "assign_ticket st t sw ww ov =
     (if n = []
      then Inr (t(''assigned_engineer'' \<mapsto> PStr ''Unassigned''),
                st\<lparr>current_ticket_id := Some (ticket_identifier t)\<rparr>)
      else Inr (t(''assigned_engineer'' \<mapsto> PStr n),
                st\<lparr>current_ticket_id := Some (ticket_identifier t),
                   workload := AList.update n (current_load (workload st) n + 1) (workload st)\<rparr>))"
proof -
  let ?st1 = "st\<lparr>current_ticket_id := Some (ticket_identifier t)\<rparr>"
  have fb: "find_best_engineer ?st1 t sw ww ov = (Some n, ?st1)"
    by (rule find_best_engineer_normal) (simp add: sel)
  have "n \<in> name ` set (engineers st)"
    using normal_selection_in_candidates[OF sel] candidates_subset by blast
  from selected_has_counter[OF c this]
  have m: "map_of (workload st) n = Some (current_load (workload st) n)" .
  show ?thesis
    by (simp add: assign_ticket_def fb m)
qed

lemma assign_ticket_fallback:
  assumes c: "consistent st" and sel: "normal_selection st t sw ww ov = None"
  shows "assign_ticket st t sw ww ov =
     (case fallback_choice st of
        None \<Rightarrow>
          Inr (t(''assigned_engineer'' \<mapsto> PStr ''Unassigned''),
               st\<lparr>current_ticket_id := Some (ticket_identifier t),
                  reassign_log := reassign_log st @
                    [\<lparr>ticket_id = ticket_identifier t, assigned_engineer = fallback_choice st,
                      is_fallback = True, reason = fallback_reason\<rparr>]\<rparr>)
      | Some n \<Rightarrow>
          if n = []
          then Inr (t(''assigned_engineer'' \<mapsto> PStr ''Unassigned''),
               st\<lparr>current_ticket_id := Some (ticket_identifier t),
                  reassign_log := reassign_log st @
                    [\<lparr>ticket_id = ticket_identifier t, assigned_engineer = fallback_choice st,
                      is_fallback = True, reason = fallback_reason\<rparr>]\<rparr>)
          else Inr (t(''assigned_engineer'' \<mapsto> PStr n),
               st\<lparr>current_ticket_id := Some (ticket_identifier t),
                  reassign_log := reassign_log st @
                    [\<lparr>ticket_id = ticket_identifier t, assigned_engineer = fallback_choice st,
                      is_fallback = True, reason = fallback_reason\<rparr>],
                  workload := AList.update n (current_load (workload st) n + 1) (workload st)\<rparr>))"
proof -
  let ?st1 = "st\<lparr>current_ticket_id := Some (ticket_identifier t)\<rparr>"
  have sel1: "normal_selection ?st1 t sw ww ov = None" by (simp add: sel)
  note fb = find_best_engineer_fallback[OF sel1]
  show ?thesis
  proof (cases "fallback_choice st")
    case None
    then show ?thesis by (simp add: assign_ticket_def fb)
  next
    case (Some n)
    then have "engineers st \<noteq> []" using fallback_choice_empty by fastforce
    from fallback_choice_in_roster[OF this] Some have "n \<in> name ` set (engineers st)" by auto
    from selected_has_counter[OF c this]
    have m: "map_of (workload st) n = Some (current_load (workload st) n)" .
    show ?thesis using Some by (simp add: assign_ticket_def fb m)
  qed
qed

lemma consistent_bump:
  assumes "consistent st" "n \<in> name ` set (engineers st)"
  shows "consistent (st\<lparr>current_ticket_id := x, workload := AList.update n v (workload st)\<rparr>)"
    and "consistent (st\<lparr>current_ticket_id := x, reassign_log := l,
                        workload := AList.update n v (workload st)\<rparr>)"
  using assms by (auto simp: consistent_def dom_update distinct_update)

lemma consistent_keep:
  assumes "consistent st"
  shows "consistent (st\<lparr>current_ticket_id := x\<rparr>)"
    and "consistent (st\<lparr>current_ticket_id := x, reassign_log := l\<rparr>)"
  using assms by (auto simp: consistent_def)

lemma sum_bump:
  assumes "consistent st" "n \<in> name ` set (engineers st)"
  shows "sum_list (map snd (AList.update n (current_load (workload st) n + 1) (workload st)))
       = sum_list (map snd (workload st)) + 1"
proof -
  from assms have d: "distinct (map fst (workload st))" by (simp add: consistent_def)
  from sum_update_existing[OF d selected_has_counter[OF assms]] show ?thesis .
qed

lemma sum_bump_Suc:
  assumes "consistent st" "n \<in> name ` set (engineers st)"
  shows "sum_list (map snd (AList.update n (Suc (current_load (workload st) n)) (workload st)))
       = Suc (sum_list (map snd (workload st)))"
  using sum_bump[OF assms] by simp

lemma assign_ticket_step:
  assumes c: "consistent st"
  shows "\<exists>a st'. assign_ticket st t sw ww ov = Inr (t(''assigned_engineer'' \<mapsto> PStr a), st')
           \<and> consistent st' \<and> engineers st' = engineers st
           \<and> (engineers st = [] \<longrightarrow> a = ''Unassigned'' \<and> workload st' = workload st)
           \<and> (engineers st \<noteq> [] \<and> (\<forall>e \<in> set (engineers st). name e \<noteq> []) \<longrightarrow>
                a \<in> name ` set (engineers st)
                \<and> sum_list (map snd (workload st')) = sum_list (map snd (workload st)) + 1)"
proof (cases "normal_selection st t sw ww ov")
  case (Some n)
  have nin: "n \<in> name ` set (engineers st)"
    using normal_selection_in_candidates[OF Some] candidates_subset by blast
  then have ne: "engineers st \<noteq> []" by auto
  show ?thesis
  proof (cases "n = []")
    case True
    with nin have "\<not> (\<forall>e \<in> set (engineers st). name e \<noteq> [])" by force
    with True ne c show ?thesis
      by (auto simp: assign_ticket_normal[OF c Some] consistent_keep)
  next
    case False
    with ne nin c show ?thesis
      by (auto simp: assign_ticket_normal[OF c Some] consistent_bump sum_bump_Suc)
  qed
next
  case None
  note eq = assign_ticket_fallback[OF c None]
  show ?thesis
  proof (cases "engineers st = []")
    case True
    with fallback_choice_empty[OF True] c show ?thesis
      by (auto simp: eq consistent_keep)
  next
    case False
    from fallback_choice_in_roster[OF False] obtain e where e: "e \<in> set (engineers st)"
      and f: "fallback_choice st = Some (name e)" by blast
    have nin: "name e \<in> name ` set (engineers st)" using e by simp
    show ?thesis
    proof (cases "name e = []")
      case True
      with e have "\<not> (\<forall>e \<in> set (engineers st). name e \<noteq> [])" by force
      with True False c f show ?thesis
        by (auto simp: eq consistent_keep)
    next
      case nonempty: False
      with False nin c f show ?thesis
        by (auto simp: eq consistent_bump sum_bump_Suc)
    qed
  qed
qed

subsection \<open>The batch loop\<close>

lemma assign_loop_result:
  assumes "consistent st"
  shows "\<exists>out st'. assign_loop st sw ww ov ts acc = Inr (acc @ out, st')
           \<and> list_all2 (\<lambda>t t'. \<exists>a. t' = t(''assigned_engineer'' \<mapsto> PStr a)) ts out
           \<and> consistent st' \<and> engineers st' = engineers st
           \<and> (engineers st = [] \<longrightarrow> workload st' = workload st)
           \<and> (engineers st \<noteq> [] \<and> (\<forall>e \<in> set (engineers st). name e \<noteq> []) \<longrightarrow>
                sum_list (map snd (workload st')) = sum_list (map snd (workload st)) + length ts)"
  using assms
proof (induction ts arbitrary: st acc)
  case Nil
  then show ?case by simp
next
  case (Cons t ts)
  from assign_ticket_step[OF Cons.prems, of t sw ww ov]
  obtain a st1 where eq: "assign_ticket st t sw ww ov = Inr (t(''assigned_engineer'' \<mapsto> PStr a), st1)"
    and c1: "consistent st1" and e1: "engineers st1 = engineers st"
    and emp1: "engineers st = [] \<longrightarrow> a = ''Unassigned'' \<and> workload st1 = workload st"
    and sum1: "engineers st \<noteq> [] \<and> (\<forall>e \<in> set (engineers st). name e \<noteq> []) \<longrightarrow>
                a \<in> name ` set (engineers st)
                \<and> sum_list (map snd (workload st1)) = sum_list (map snd (workload st)) + 1"
    by blast
  from Cons.IH[OF c1, of "acc @ [t(''assigned_engineer'' \<mapsto> PStr a)]"]
  obtain out st' where
    loop: "assign_loop st1 sw ww ov ts (acc @ [t(''assigned_engineer'' \<mapsto> PStr a)])
             = Inr ((acc @ [t(''assigned_engineer'' \<mapsto> PStr a)]) @ out, st')"
    and rel: "list_all2 (\<lambda>t t'. \<exists>a. t' = t(''assigned_engineer'' \<mapsto> PStr a)) ts out"
    and c': "consistent st'" and e': "engineers st' = engineers st1"
    and emp': "engineers st1 = [] \<longrightarrow> workload st' = workload st1"
    and sum': "engineers st1 \<noteq> [] \<and> (\<forall>e \<in> set (engineers st1). name e \<noteq> []) \<longrightarrow>
                sum_list (map snd (workload st')) = sum_list (map snd (workload st1)) + length ts"
    by blast
  let ?out = "t(''assigned_engineer'' \<mapsto> PStr a) # out"
  have r1: "assign_loop st sw ww ov (t # ts) acc = Inr (acc @ ?out, st')"
    using eq loop by simp
  have r2: "list_all2 (\<lambda>t t'. \<exists>a. t' = t(''assigned_engineer'' \<mapsto> PStr a)) (t # ts) ?out"
    using rel by auto
  have r3: "engineers st' = engineers st" using e' e1 by simp
  have r4: "engineers st = [] \<longrightarrow> workload st' = workload st"
    using emp1 emp' e1 by simp
  have r5: "engineers st \<noteq> [] \<and> (\<forall>e \<in> set (engineers st). name e \<noteq> []) \<longrightarrow>
                sum_list (map snd (workload st')) = sum_list (map snd (workload st)) + length (t # ts)"
    using sum1 sum' e1 by simp
  from r1 r2 c' r3 r4 r5 show ?case
    by (intro exI[of _ ?out] exI[of _ st'] conjI)
qed



subsection \<open>The claims about selection, assignment and batches\<close>

text \<open>
  Claim C4. The combined score the scoring loop computes for a candidate is
  \<open>skill * skill_weight + workload * workload_weight\<close>, or
  \<open>0.1 + workload * workload_weight\<close> when the skill score is 0, in float arithmetic.
  Whenever the normal selection path names a winner, \<open>find_best_engineer\<close> returns it
  with the engine unchanged, and the winner is the candidate at the first position whose
  combined score is largest among the engineers that pass the candidate filter; that score
  exceeds the initial \<open>-1.0\<close>. The normal path names no winner only when no candidate
  scores above \<open>-1.0\<close>.
\<close>

theorem winner_first_largest_combined_score:
  "(\<forall>eng. combined (workload st) (ticket_required_skills t) sw ww eng =
       (if calculate_skill_match_score eng (ticket_required_skills t) = 0
        then fadd (double_round (1 / 10)) (fmul (calculate_workload_score (workload st) eng) ww)
        else fadd (fmul (calculate_skill_match_score eng (ticket_required_skills t)) sw)
               (fmul (calculate_workload_score (workload st) eng) ww)))
   \<and> (\<forall>n. normal_selection st t sw ww ov = Some n \<longrightarrow>
        find_best_engineer st t sw ww ov = (Some n, st)
        \<and> (\<exists>i < length (candidates st ov).
              n = name (candidates st ov ! i)
              \<and> - 1 < combined (workload st) (ticket_required_skills t) sw ww (candidates st ov ! i)
              \<and> (\<forall>j < length (candidates st ov).
                    combined (workload st) (ticket_required_skills t) sw ww (candidates st ov ! j)
                    \<le> combined (workload st) (ticket_required_skills t) sw ww (candidates st ov ! i))
              \<and> (\<forall>j < i.
                    combined (workload st) (ticket_required_skills t) sw ww (candidates st ov ! j)
                    < combined (workload st) (ticket_required_skills t) sw ww (candidates st ov ! i))))
   \<and> (normal_selection st t sw ww ov = None \<longrightarrow>
        (\<forall>e \<in> set (candidates st ov).
            combined (workload st) (ticket_required_skills t) sw ww e \<le> - 1))"
proof (intro conjI allI impI)
  fix eng
  show "combined (workload st) (ticket_required_skills t) sw ww eng =
       (if calculate_skill_match_score eng (ticket_required_skills t) = 0
        then fadd (double_round (1 / 10)) (fmul (calculate_workload_score (workload st) eng) ww)
        else fadd (fmul (calculate_skill_match_score eng (ticket_required_skills t)) sw)
               (fmul (calculate_workload_score (workload st) eng) ww))"
    by (rule combined_def)
next
  fix n assume n: "normal_selection st t sw ww ov = Some n"
  show "find_best_engineer st t sw ww ov = (Some n, st)"
    by (rule find_best_engineer_normal[OF n])
  from n have "normal_selection st t sw ww ov \<noteq> None" by simp
  from normal_selection_first_max[OF this] n
  show "\<exists>i < length (candidates st ov).
              n = name (candidates st ov ! i)
              \<and> - 1 < combined (workload st) (ticket_required_skills t) sw ww (candidates st ov ! i)
              \<and> (\<forall>j < length (candidates st ov).
                    combined (workload st) (ticket_required_skills t) sw ww (candidates st ov ! j)
                    \<le> combined (workload st) (ticket_required_skills t) sw ww (candidates st ov ! i))
              \<and> (\<forall>j < i.
                    combined (workload st) (ticket_required_skills t) sw ww (candidates st ov ! j)
                    < combined (workload st) (ticket_required_skills t) sw ww (candidates st ov ! i))"
    by auto
next
  assume "normal_selection st t sw ww ov = None"
  then show "\<forall>e \<in> set (candidates st ov).
            combined (workload st) (ticket_required_skills t) sw ww e \<le> - 1"
    by (rule normal_selection_none)
qed

text \<open>
  In the engine \<open>engine_close\<close> the two combined scores are equal as exact rationals, and
  the float of the second engineer is the larger one: the second engineer wins, as in the
  code.
\<close>

theorem winner_first_largest_combined_score_witness:
  "find_best_engineer engine_close ticket_devops default_skill_weight default_workload_weight False
     = (Some ''Q'', engine_close)
   \<and> combined (workload engine_close) (ticket_required_skills ticket_devops)
       default_skill_weight default_workload_weight eng_P
     = 6004799503160661 / 9007199254740992
   \<and> combined (workload engine_close) (ticket_required_skills ticket_devops)
       default_skill_weight default_workload_weight eng_Q
     = 3002399751580331 / 4503599627370496"
proof -
  have sel: "normal_selection engine_close ticket_devops default_skill_weight
               default_workload_weight False = Some ''Q''"
    by code_simp
  have p: "combined (workload engine_close) (ticket_required_skills ticket_devops)
       default_skill_weight default_workload_weight eng_P
     = 6004799503160661 / 9007199254740992"
    by code_simp
  have q: "combined (workload engine_close) (ticket_required_skills ticket_devops)
       default_skill_weight default_workload_weight eng_Q
     = 3002399751580331 / 4503599627370496"
    by code_simp
  note inst = winner_first_largest_combined_score[of engine_close ticket_devops
      default_skill_weight default_workload_weight False]
  from inst[THEN conjunct2, THEN conjunct1, rule_format, OF sel]
  have a: "find_best_engineer engine_close ticket_devops default_skill_weight
             default_workload_weight False = (Some ''Q'', engine_close)"
    by (rule conjunct1)
  from a p q show ?thesis by (intro conjI)
qed

text \<open>
  Claim C2. When no engineer survives the candidate filter, \<open>find_best_engineer\<close>
  returns the fallback choice and appends one audit row with \<open>is_fallback = True\<close> and a
  non-empty reason. The fallback candidates are the engineers with availability score 1,
  or the full roster when there is none; the choice is the candidate at the first position
  whose current workload is smallest (\<open>None\<close> only for an empty roster).
\<close>

theorem fallback_least_loaded_first_seen:
  assumes "\<forall>e \<in> set (engineers st). \<not> survives (workload st) ov e"
  shows "find_best_engineer st t sw ww ov =
           (fallback_choice st,
            st\<lparr>reassign_log := reassign_log st @
              [\<lparr>ticket_id = (case current_ticket_id st of None \<Rightarrow> ''Unknown'' | Some i \<Rightarrow> i),
                assigned_engineer = fallback_choice st, is_fallback = True,
                reason = fallback_reason\<rparr>]\<rparr>)
         \<and> fallback_reason \<noteq> []
         \<and> fallback_candidates st =
             (if \<exists>e \<in> set (engineers st). get_availability_score e = 1
              then filter (\<lambda>e. get_availability_score e = 1) (engineers st)
              else engineers st)
         \<and> (engineers st = [] \<longrightarrow> fallback_choice st = None)
         \<and> (engineers st \<noteq> [] \<longrightarrow>
              (\<exists>i < length (fallback_candidates st).
                 fallback_choice st = Some (name (fallback_candidates st ! i))
                 \<and> (\<forall>j < length (fallback_candidates st).
                       current_load (workload st) (name (fallback_candidates st ! i))
                       \<le> current_load (workload st) (name (fallback_candidates st ! j)))
                 \<and> (\<forall>j < i.
                       current_load (workload st) (name (fallback_candidates st ! i))
                       < current_load (workload st) (name (fallback_candidates st ! j)))))"
proof -
  have "candidates st ov = []" using assms by (simp add: candidates_def filter_empty_conv)
  from normal_selection_no_candidates[OF this]
  have sel: "normal_selection st t sw ww ov = None" .
  note r1 = find_best_engineer_fallback[OF sel]
  have r2: "fallback_reason \<noteq> []" by (simp add: fallback_reason_def)
  note r3 = fallback_candidates_eq[of st]
  have r4: "engineers st = [] \<longrightarrow> fallback_choice st = None"
    using fallback_choice_empty by blast
  have r5: "engineers st \<noteq> [] \<longrightarrow>
              (\<exists>i < length (fallback_candidates st).
                 fallback_choice st = Some (name (fallback_candidates st ! i))
                 \<and> (\<forall>j < length (fallback_candidates st).
                       current_load (workload st) (name (fallback_candidates st ! i))
                       \<le> current_load (workload st) (name (fallback_candidates st ! j)))
                 \<and> (\<forall>j < i.
                       current_load (workload st) (name (fallback_candidates st ! i))
                       < current_load (workload st) (name (fallback_candidates st ! j))))"
  proof
    assume "engineers st \<noteq> []"
    from least_loaded_result[OF fallback_candidates_nonempty[OF this], of "workload st"]
    show "\<exists>i < length (fallback_candidates st).
                 fallback_choice st = Some (name (fallback_candidates st ! i))
                 \<and> (\<forall>j < length (fallback_candidates st).
                       current_load (workload st) (name (fallback_candidates st ! i))
                       \<le> current_load (workload st) (name (fallback_candidates st ! j)))
                 \<and> (\<forall>j < i.
                       current_load (workload st) (name (fallback_candidates st ! i))
                       < current_load (workload st) (name (fallback_candidates st ! j)))"
      unfolding fallback_choice_def .
  qed
  from r1 r2 r3 r4 r5 show ?thesis by (intro conjI)
qed

theorem fallback_least_loaded_first_seen_witness:
  "fst (find_best_engineer engine_full ticket_S1 default_skill_weight default_workload_weight False) = Some ''A''
   \<and> reassign_log (snd (find_best_engineer engine_full ticket_S1 default_skill_weight default_workload_weight False))
       = [\<lparr>ticket_id = ''Unknown'', assigned_engineer = Some ''A'', is_fallback = True,
            reason = fallback_reason\<rparr>]"
proof -
  have full: "\<forall>e \<in> set (engineers engine_full). \<not> survives (workload engine_full) False e"
    by code_simp
  have choice: "fallback_choice engine_full = Some ''A''"
    by code_simp
  have st: "reassign_log engine_full = []" "current_ticket_id engine_full = None"
    by (simp_all add: engine_full_def init_engine_def)
  from fallback_least_loaded_first_seen[OF full, of ticket_S1 default_skill_weight default_workload_weight]
  have "find_best_engineer engine_full ticket_S1 default_skill_weight default_workload_weight False =
           (fallback_choice engine_full,
            engine_full\<lparr>reassign_log := reassign_log engine_full @
              [\<lparr>ticket_id = (case current_ticket_id engine_full of None \<Rightarrow> ''Unknown'' | Some i \<Rightarrow> i),
                assigned_engineer = fallback_choice engine_full, is_fallback = True,
                reason = fallback_reason\<rparr>]\<rparr>)"
    by (rule conjunct1)
  then show ?thesis by (simp add: choice st)
qed

text \<open>
  Claim C1, as amended. In a consistent engine whose engineers all have a non-empty name,
  \<open>assign_ticket\<close> returns normally and sets \<open>assigned_engineer\<close> to the name of an
  engineer of the roster when the roster is not empty, and to \<open>Unassigned\<close> when it is
  empty. So with a non-empty roster the value is \<open>Unassigned\<close> only if an engineer bears
  that name.
\<close>

theorem assignment_names_roster_engineer:
  assumes "consistent st" and "\<forall>e \<in> set (engineers st). name e \<noteq> []"
  shows "\<exists>a st'. assign_ticket st t sw ww ov = Inr (t(''assigned_engineer'' \<mapsto> PStr a), st')
           \<and> (if engineers st = [] then a = ''Unassigned'' else a \<in> name ` set (engineers st))"
proof -
  from assign_ticket_step[OF assms(1), of t sw ww ov]
  obtain a st' where eq: "assign_ticket st t sw ww ov = Inr (t(''assigned_engineer'' \<mapsto> PStr a), st')"
    and emp: "engineers st = [] \<longrightarrow> a = ''Unassigned'' \<and> workload st' = workload st"
    and ne: "engineers st \<noteq> [] \<and> (\<forall>e \<in> set (engineers st). name e \<noteq> []) \<longrightarrow>
                a \<in> name ` set (engineers st)
                \<and> sum_list (map snd (workload st')) = sum_list (map snd (workload st)) + 1"
    by blast
  have "if engineers st = [] then a = ''Unassigned'' else a \<in> name ` set (engineers st)"
    using emp ne assms(2) by simp
  with eq show ?thesis by (intro exI[of _ a] exI[of _ st'] conjI)
qed

theorem assignment_names_roster_engineer_witness:
  "\<exists>a st'. assign_ticket (init_engine [eng_A, eng_B] []) ticket_S1 default_skill_weight default_workload_weight False
              = Inr (ticket_S1(''assigned_engineer'' \<mapsto> PStr a), st')
           \<and> a \<in> name ` set [eng_A, eng_B]"
proof -
  have names: "\<forall>e \<in> set (engineers (init_engine [eng_A, eng_B] [])). name e \<noteq> []"
    by code_simp
  have roster: "engineers (init_engine [eng_A, eng_B] []) = [eng_A, eng_B]"
    by (simp add: init_engine_def)
  from assignment_names_roster_engineer[OF consistent_init names, of ticket_S1 default_skill_weight default_workload_weight False]
  show ?thesis unfolding roster by simp
qed

text \<open>
  Claim C1 as stated fails on two non-empty rosters: an engineer whose name is the empty
  string is selected, but the truthiness test of \<open>assign_ticket\<close> then writes
  \<open>Unassigned\<close>, which is no engineer's name; and an engineer named \<open>Unassigned\<close>
  makes the sentinel the assigned name.
\<close>

theorem assignment_totality_counterexample:
  "(case assign_ticket (init_engine [eng_A\<lparr>name := []\<rparr>] []) ticket_S1 default_skill_weight default_workload_weight False of
       Inl e \<Rightarrow> False
     | Inr (t', st') \<Rightarrow> t' ''assigned_engineer'' = Some (PStr ''Unassigned'')
          \<and> engineers st' \<noteq> [] \<and> ''Unassigned'' \<notin> name ` set (engineers st'))
   \<and> (case assign_ticket (init_engine [eng_A\<lparr>name := ''Unassigned''\<rparr>] []) ticket_S1 default_skill_weight default_workload_weight False of
       Inl e \<Rightarrow> False
     | Inr (t', st') \<Rightarrow> t' ''assigned_engineer'' = Some (PStr ''Unassigned'')
          \<and> engineers st' \<noteq> [])"
  by code_simp

text \<open>
  Claim C5. With \<open>allow_overflow\<close> false, an assignment in a consistent engine returns
  normally and is of one of two kinds. On the normal path no audit row is written, the
  winner is a candidate, its counter is afterwards at most the \<open>max_workload\<close> of every
  candidate of that name, and no other counter changes. On the fallback path exactly one
  audit row with \<open>is_fallback = True\<close> naming the chosen engineer is appended, and only
  that engineer's counter can change.
\<close>

theorem capacity_respected_without_overflow:
  assumes c: "consistent st"
  shows "\<exists>t' st'. assign_ticket st t sw ww False = Inr (t', st')
     \<and> (case normal_selection st t sw ww False of
          Some n \<Rightarrow>
            reassign_log st' = reassign_log st
            \<and> (\<exists>e \<in> set (candidates st False). name e = n)
            \<and> (\<forall>e \<in> set (candidates st False).
                  name e = n \<longrightarrow> int (current_load (workload st') n) \<le> max_workload e)
            \<and> (\<forall>m. m \<noteq> n \<longrightarrow> current_load (workload st') m = current_load (workload st) m)
        | None \<Rightarrow>
            reassign_log st' = reassign_log st @
              [\<lparr>ticket_id = ticket_identifier t, assigned_engineer = fallback_choice st,
                is_fallback = True, reason = fallback_reason\<rparr>]
            \<and> (\<forall>m. fallback_choice st \<noteq> Some m \<longrightarrow>
                  current_load (workload st') m = current_load (workload st) m))"
proof (cases "normal_selection st t sw ww False")
  case (Some n)
  have ex: "\<exists>e \<in> set (candidates st False). name e = n"
    by (rule normal_selection_in_candidates[OF Some])
  have cap: "\<forall>e \<in> set (candidates st False). name e = n \<longrightarrow>
               int (current_load (workload st) n) < max_workload e"
  proof (intro ballI impI)
    fix e assume e: "e \<in> set (candidates st False)" and n: "name e = n"
    from e have "survives (workload st) False e" by (simp add: candidates_def)
    from survives_load[OF this] n show "int (current_load (workload st) n) < max_workload e"
      by simp
  qed
  show ?thesis
  proof (cases "n = []")
    case True
    let ?st' = "st\<lparr>current_ticket_id := Some (ticket_identifier t)\<rparr>"
    have eq: "assign_ticket st t sw ww False
                = Inr (t(''assigned_engineer'' \<mapsto> PStr ''Unassigned''), ?st')"
      using assign_ticket_normal[OF c Some] True by simp
    have p: "reassign_log ?st' = reassign_log st
            \<and> (\<exists>e \<in> set (candidates st False). name e = n)
            \<and> (\<forall>e \<in> set (candidates st False).
                  name e = n \<longrightarrow> int (current_load (workload ?st') n) \<le> max_workload e)
            \<and> (\<forall>m. m \<noteq> n \<longrightarrow> current_load (workload ?st') m = current_load (workload st) m)"
      using ex cap by (simp add: less_imp_le)
    show ?thesis
      apply (rule exI[of _ "t(''assigned_engineer'' \<mapsto> PStr ''Unassigned'')"])
      apply (rule exI[of _ ?st'])
      using eq p Some by simp
  next
    case False
    let ?st' = "st\<lparr>current_ticket_id := Some (ticket_identifier t),
                   workload := AList.update n (current_load (workload st) n + 1) (workload st)\<rparr>"
    have eq: "assign_ticket st t sw ww False = Inr (t(''assigned_engineer'' \<mapsto> PStr n), ?st')"
      using assign_ticket_normal[OF c Some] False by simp
    have p: "reassign_log ?st' = reassign_log st
            \<and> (\<exists>e \<in> set (candidates st False). name e = n)
            \<and> (\<forall>e \<in> set (candidates st False).
                  name e = n \<longrightarrow> int (current_load (workload ?st') n) \<le> max_workload e)
            \<and> (\<forall>m. m \<noteq> n \<longrightarrow> current_load (workload ?st') m = current_load (workload st) m)"
      using ex cap by (auto simp: current_load_update)
    show ?thesis
      apply (rule exI[of _ "t(''assigned_engineer'' \<mapsto> PStr n)"])
      apply (rule exI[of _ ?st'])
      using eq p Some by simp
  qed
next
  case None
  let ?log = "reassign_log st @
              [\<lparr>ticket_id = ticket_identifier t, assigned_engineer = fallback_choice st,
                is_fallback = True, reason = fallback_reason\<rparr>]"
  note eq = assign_ticket_fallback[OF c None]
  have "\<exists>t' st'. assign_ticket st t sw ww False = Inr (t', st')
          \<and> reassign_log st' = ?log
          \<and> (\<forall>m. fallback_choice st \<noteq> Some m \<longrightarrow>
                  current_load (workload st') m = current_load (workload st) m)"
  proof (cases "fallback_choice st")
    case None
    then show ?thesis by (simp add: eq)
  next
    case (Some n)
    then show ?thesis by (cases "n = []") (auto simp: eq current_load_update)
  qed
  then show ?thesis using None by simp
qed

theorem capacity_respected_without_overflow_witness:
  "\<exists>t' st'. assign_ticket (init_engine [eng_A, eng_D] []) ticket_S1 default_skill_weight default_workload_weight False = Inr (t', st')
     \<and> reassign_log st' = []
     \<and> int (current_load (workload st') ''A'') \<le> max_workload eng_A"
proof -
  let ?st = "init_engine [eng_A, eng_D] []"
  have sel: "normal_selection ?st ticket_S1 default_skill_weight default_workload_weight False = Some ''A''"
    by code_simp
  have cand: "eng_A \<in> set (candidates ?st False)"
    by code_simp
  have nm: "name eng_A = ''A''" by (simp add: eng_A_def)
  have lg: "reassign_log ?st = []" by (simp add: init_engine_def)
  from capacity_respected_without_overflow[OF consistent_init, of "[eng_A, eng_D]" "[]" ticket_S1 default_skill_weight default_workload_weight]
  obtain t' st' where eq: "assign_ticket ?st ticket_S1 default_skill_weight default_workload_weight False = Inr (t', st')"
    and l: "reassign_log st' = reassign_log ?st"
    and cap: "\<forall>e \<in> set (candidates ?st False).
                  name e = ''A'' \<longrightarrow> int (current_load (workload st') ''A'') \<le> max_workload e"
    unfolding sel by auto
  from cap cand nm have "int (current_load (workload st') ''A'') \<le> max_workload eng_A" by blast
  with eq l lg show ?thesis by auto
qed



text \<open>
  Claim C8, as amended. For a non-empty roster whose engineers all have a non-empty name, a
  batch run with \<open>reset_workload\<close> true returns normally and leaves the workload counters
  summing to the number of tickets of the batch.
\<close>

theorem batch_workload_conservation:
  assumes "engineers st \<noteq> []" and "\<forall>e \<in> set (engineers st). name e \<noteq> []"
  shows "\<exists>out st'. assign_tickets st tickets sw ww True ov = Inr (out, st')
           \<and> sum_list (map snd (workload st')) = length tickets"
proof -
  let ?st1 = "reset_workload st"
  let ?ts = "sort_key priority_key tickets"
  have e: "engineers ?st1 = engineers st" by (simp add: reset_workload_def)
  have z: "sum_list (map snd (workload ?st1)) = 0"
    by (simp add: reset_workload_def fresh_workload_sum)
  from assign_loop_result[OF consistent_reset, of st sw ww ov ?ts "[]"]
  obtain out st' where loop: "assign_loop ?st1 sw ww ov ?ts [] = Inr ([] @ out, st')"
    and sum: "engineers ?st1 \<noteq> [] \<and> (\<forall>e \<in> set (engineers ?st1). name e \<noteq> []) \<longrightarrow>
                sum_list (map snd (workload st')) = sum_list (map snd (workload ?st1)) + length ?ts"
    by blast
  have r1: "assign_tickets st tickets sw ww True ov = Inr (out, st')"
    using loop by (simp add: assign_tickets_def Let_def)
  have r2: "sum_list (map snd (workload st')) = length tickets"
    using sum assms e z by simp
  from r1 r2 show ?thesis by (intro exI[of _ out] exI[of _ st'] conjI)
qed

theorem batch_workload_conservation_witness:
  "\<exists>out st'. assign_tickets (init_engine [eng_A, eng_B] []) [ticket_S1, ticket_S1, ticket_S1]
               default_skill_weight default_workload_weight True False = Inr (out, st')
     \<and> sum_list (map snd (workload st')) = 3"
proof -
  have roster: "engineers (init_engine [eng_A, eng_B] []) \<noteq> []"
    by (simp add: init_engine_def)
  have names: "\<forall>e \<in> set (engineers (init_engine [eng_A, eng_B] [])). name e \<noteq> []"
    by code_simp
  from batch_workload_conservation[OF roster names, of "[ticket_S1, ticket_S1, ticket_S1]" default_skill_weight default_workload_weight False]
  show ?thesis by (simp add: eval_nat_numeral)
qed

text \<open>
  Claim C8 as stated fails for an empty roster: the one ticket of the batch is marked
  \<open>Unassigned\<close> and the counters sum to 0.
\<close>

theorem batch_workload_conservation_counterexample:
  "case assign_tickets (init_engine [] []) [ticket_S1] default_skill_weight default_workload_weight True False of
      Inl e \<Rightarrow> False
    | Inr (out, st') \<Rightarrow> length out = 1 \<and> sum_list (map snd (workload st')) = 0"
  by code_simp


section \<open>Properties of the skill score\<close>

subsection \<open>Stripping\<close>

lemma dropWhile_keep: "s \<noteq> [] \<Longrightarrow> \<not> P (hd s) \<Longrightarrow> dropWhile P s = s"
  by (cases s) simp_all

lemma strip_where_core:
  assumes l: "\<forall>x \<in> set l. P x" and r: "\<forall>x \<in> set r. P x"
    and t: "t \<noteq> []" "\<not> P (hd t)" "\<not> P (last t)"
  shows "strip_where P (l @ t @ r) = t"
proof -
  have "dropWhile P (l @ t @ r) = dropWhile P (t @ r)"
    by (rule dropWhile_append2) (use l in auto)
  also have "\<dots> = t @ r" using t by (intro dropWhile_keep) simp_all
  finally have a: "dropWhile P (l @ t @ r) = t @ r" .
  have "dropWhile P (rev r @ rev t) = dropWhile P (rev t)"
    by (rule dropWhile_append2) (use r in auto)
  also have "\<dots> = rev t" using t by (intro dropWhile_keep) (simp_all add: hd_rev)
  finally have b: "dropWhile P (rev r @ rev t) = rev t" .
  show ?thesis by (simp add: strip_where_def a b)
qed

lemma space_not_comma: "py_isspace c \<Longrightarrow> c \<noteq> CHR '',''"
  by (auto simp: py_isspace_def)

lemma quote_not_comma: "is_quote c \<Longrightarrow> c \<noteq> CHR '',''"
  by (auto simp: is_quote_def)

lemma quote_not_space: "is_quote c \<Longrightarrow> \<not> py_isspace c"
  by (auto simp: is_quote_def py_isspace_def)

lemma bracket_not_space: "\<not> py_isspace (CHR ''['')" "\<not> py_isspace (CHR '']'')"
  by (simp_all add: py_isspace_def)

lemma quote_not_bracket: "is_quote c \<Longrightarrow> c \<noteq> CHR ''['' \<and> c \<noteq> CHR '']''"
  by (auto simp: is_quote_def)

subsection \<open>Splitting a joined string\<close>

lemma split_no_comma:
  "CHR '','' \<notin> set s \<Longrightarrow> split_comma_acc cur s = [rev cur @ s]"
  by (induction s arbitrary: cur) auto

lemma split_prefix:
  "CHR '','' \<notin> set p \<Longrightarrow> split_comma_acc cur (p @ s) = split_comma_acc (rev p @ cur) s"
  by (induction p arbitrary: cur) auto

lemma split_at_comma:
  "CHR '','' \<notin> set s \<Longrightarrow>
   split_comma_acc cur (s @ CHR '','' # rest) = (rev cur @ s) # split_comma_acc [] rest"
  by (simp add: split_prefix)

lemma split_join:
  assumes pad: "CHR '','' \<notin> set pad"
  shows "xs \<noteq> [] \<Longrightarrow> \<forall>x \<in> set xs. CHR '','' \<notin> set x \<Longrightarrow>
         split_comma_acc cur (py_join (CHR '','' # pad) xs)
           = (rev cur @ hd xs) # map (\<lambda>y. pad @ y) (tl xs)"
proof (induction "CHR '','' # pad" xs arbitrary: cur rule: py_join.induct)
  case 1
  then show ?case by simp
next
  case (2 x)
  then show ?case by (simp add: split_no_comma)
next
  case (3 x y ys)
  have x: "CHR '','' \<notin> set x" using "3.prems" by simp
  have rest: "\<forall>z \<in> set (y # ys). CHR '','' \<notin> set z" using "3.prems" by simp
  have "split_comma_acc cur (py_join (CHR '','' # pad) (x # y # ys))
      = split_comma_acc cur (x @ CHR '','' # (pad @ py_join (CHR '','' # pad) (y # ys)))"
    by simp
  also have "\<dots> = (rev cur @ x) # split_comma_acc [] (pad @ py_join (CHR '','' # pad) (y # ys))"
    by (rule split_at_comma[OF x])
  also have "split_comma_acc [] (pad @ py_join (CHR '','' # pad) (y # ys))
      = split_comma_acc (rev pad) (py_join (CHR '','' # pad) (y # ys))"
    using split_prefix[OF pad, of "[]"] by simp
  also have "\<dots> = (rev (rev pad) @ hd (y # ys)) # map (\<lambda>z. pad @ z) (tl (y # ys))"
    by (rule "3.hyps") (use rest in simp_all)
  finally show ?case by simp
qed

lemma hd_join: "xs \<noteq> [] \<Longrightarrow> hd xs \<noteq> [] \<Longrightarrow> hd (py_join sep xs) = hd (hd xs)"
  by (induction sep xs rule: py_join.induct) simp_all

lemma last_join:
  "xs \<noteq> [] \<Longrightarrow> \<forall>x \<in> set xs. x \<noteq> [] \<Longrightarrow> last (py_join sep xs) = last (last xs)"
proof (induction sep xs rule: py_join.induct)
  case (3 sep x y ys)
  then have "py_join sep (y # ys) \<noteq> []" by (cases ys) simp_all
  with 3 show ?case by simp
qed simp_all

lemma join_nonempty: "xs \<noteq> [] \<Longrightarrow> hd xs \<noteq> [] \<Longrightarrow> py_join sep xs \<noteq> []"
  by (induction sep xs rule: py_join.induct) simp_all

subsection \<open>Normalising a rendered token list\<close>

lemma decorated_token:
  assumes t: "plain_token t" and ql: "\<forall>c \<in> set ql. is_quote c" and qr: "\<forall>c \<in> set qr. is_quote c"
  shows "ql @ t @ qr \<noteq> []" and "CHR '','' \<notin> set (ql @ t @ qr)"
    and "\<not> py_isspace (hd (ql @ t @ qr))" and "\<not> py_isspace (last (ql @ t @ qr))"
    and "hd (ql @ t @ qr) \<noteq> CHR ''[''"
    and "strip_where is_quote (ql @ t @ qr) = t"
proof -
  from t have ne: "t \<noteq> []" and nc: "CHR '','' \<notin> set t"
    and h: "edge_ok (hd t)" and l: "edge_ok (last t)"
    by (simp_all add: plain_token_def)
  show "ql @ t @ qr \<noteq> []" using ne by simp
  show "CHR '','' \<notin> set (ql @ t @ qr)"
    using nc ql qr quote_not_comma by auto
  have hd_eq: "hd (ql @ t @ qr) = (if ql = [] then hd t else hd ql)"
    using ne by (simp add: hd_append)
  have last_eq: "last (ql @ t @ qr) = (if qr = [] then last t else last qr)"
    using ne by simp
  have hq: "ql \<noteq> [] \<Longrightarrow> is_quote (hd ql)" using ql by (cases ql) simp_all
  have lq: "qr \<noteq> [] \<Longrightarrow> is_quote (last qr)" using qr by (meson last_in_set)
  show "\<not> py_isspace (hd (ql @ t @ qr))"
    using hd_eq h hq quote_not_space by (auto simp: edge_ok_def)
  show "\<not> py_isspace (last (ql @ t @ qr))"
    using last_eq l lq quote_not_space by (auto simp: edge_ok_def)
  show "hd (ql @ t @ qr) \<noteq> CHR ''[''"
    using hd_eq h hq quote_not_bracket by (auto simp: edge_ok_def)
  show "strip_where is_quote (ql @ t @ qr) = t"
    using ql qr ne h l by (intro strip_where_core) (simp_all add: edge_ok_def)
qed

lemma strip_decorated:
  assumes t: "plain_token t" and ql: "\<forall>c \<in> set ql. is_quote c" and qr: "\<forall>c \<in> set qr. is_quote c"
    and pad: "\<forall>c \<in> set pad. py_isspace c"
  shows "py_strip (pad @ ql @ t @ qr) = ql @ t @ qr"
proof -
  note d = decorated_token[OF t ql qr]
  have "strip_where py_isspace (pad @ (ql @ t @ qr) @ []) = ql @ t @ qr"
    by (rule strip_where_core) (use pad d in simp_all)
  then show ?thesis by (simp add: py_strip_def)
qed

lemma normalise_joined:
  assumes ts: "\<forall>t \<in> set ts. plain_token t" and ne: "ts \<noteq> []"
    and ql: "\<forall>c \<in> set ql. is_quote c" and qr: "\<forall>c \<in> set qr. is_quote c"
    and pad: "\<forall>c \<in> set pad. py_isspace c"
  shows "map (\<lambda>p. strip_where is_quote (py_strip p))
           (filter (\<lambda>p. py_strip p \<noteq> [])
              (py_split_comma (py_join (CHR '','' # pad) (map (\<lambda>t. ql @ t @ qr) ts)))) = ts"
proof -
  let ?dec = "\<lambda>t. ql @ t @ qr"
  let ?S = "py_join (CHR '','' # pad) (map ?dec ts)"
  have padc: "CHR '','' \<notin> set pad" using pad space_not_comma by blast
  have decc: "\<forall>x \<in> set (map ?dec ts). CHR '','' \<notin> set x"
    using decorated_token(2)[OF _ ql qr] ts by auto
  have "py_split_comma ?S = (rev [] @ hd (map ?dec ts)) # map (\<lambda>y. pad @ y) (tl (map ?dec ts))"
    unfolding py_split_comma_def by (rule split_join[OF padc]) (use ne decc in simp_all)
  then have pieces: "py_split_comma ?S = ?dec (hd ts) # map (\<lambda>t. pad @ ?dec t) (tl ts)"
    using ne by (cases ts) simp_all
  have hd_in: "hd ts \<in> set ts" using ne by simp
  have tl_in: "\<And>t. t \<in> set (tl ts) \<Longrightarrow> t \<in> set ts" by (rule list.set_sel(2)[OF ne])
  have s0: "py_strip (?dec (hd ts)) = ?dec (hd ts)"
    using strip_decorated[OF ts[rule_format, OF hd_in] ql qr, of "[]"] by simp
  have s1: "\<And>t. t \<in> set (tl ts) \<Longrightarrow> py_strip (pad @ ?dec t) = ?dec t"
    using strip_decorated[OF ts[rule_format, OF tl_in] ql qr pad] by simp
  have n0: "?dec (hd ts) \<noteq> []" using ts hd_in by (simp add: plain_token_def)
  have n1: "\<And>t. t \<in> set (tl ts) \<Longrightarrow> ?dec t \<noteq> []"
    using ts tl_in by (simp add: plain_token_def)
  have keep: "filter (\<lambda>p. py_strip p \<noteq> []) (py_split_comma ?S) = py_split_comma ?S"
    unfolding pieces by (rule filter_True) (use s0 s1 n0 n1 in auto)
  have q0: "strip_where is_quote (?dec (hd ts)) = hd ts"
    by (rule decorated_token(6)[OF ts[rule_format, OF hd_in] ql qr])
  have q1: "\<And>t. t \<in> set (tl ts) \<Longrightarrow> strip_where is_quote (?dec t) = t"
    by (rule decorated_token(6)[OF ts[rule_format, OF tl_in] ql qr])
  have tl_map: "map (\<lambda>t. strip_where is_quote (py_strip (pad @ ?dec t))) (tl ts) = tl ts"
    by (rule map_idI) (simp add: s1 q1)
  have "map (\<lambda>p. strip_where is_quote (py_strip p)) (py_split_comma ?S)
      = hd ts # tl ts"
    unfolding pieces using s0 q0 tl_map by (simp add: comp_def)
  also have "\<dots> = ts" using ne by simp
  finally show ?thesis using keep by simp
qed

lemma joined_edges:
  assumes ts: "\<forall>t \<in> set ts. plain_token t" and ne: "ts \<noteq> []"
    and ql: "\<forall>c \<in> set ql. is_quote c" and qr: "\<forall>c \<in> set qr. is_quote c"
  shows "py_join sep (map (\<lambda>t. ql @ t @ qr) ts) \<noteq> []"
    and "\<not> py_isspace (hd (py_join sep (map (\<lambda>t. ql @ t @ qr) ts)))"
    and "\<not> py_isspace (last (py_join sep (map (\<lambda>t. ql @ t @ qr) ts)))"
    and "hd (py_join sep (map (\<lambda>t. ql @ t @ qr) ts)) \<noteq> CHR ''[''"
proof -
  let ?dec = "\<lambda>t. ql @ t @ qr"
  let ?xs = "map ?dec ts"
  have xne: "?xs \<noteq> []" using ne by simp
  have hd_in: "hd ts \<in> set ts" and last_in: "last ts \<in> set ts" using ne by simp_all
  have all_ne: "\<forall>x \<in> set ?xs. x \<noteq> []" using ts by (auto simp: plain_token_def)
  have hne: "hd ?xs \<noteq> []" using all_ne xne by (meson hd_in_set)
  have h: "hd (py_join sep ?xs) = hd (?dec (hd ts))"
    using hd_join[OF xne hne] ne by (simp add: hd_map)
  have l: "last (py_join sep ?xs) = last (?dec (last ts))"
    using last_join[OF xne all_ne] ne by (simp add: last_map)
  show "py_join sep ?xs \<noteq> []" by (rule join_nonempty[OF xne hne])
  show "\<not> py_isspace (hd (py_join sep ?xs))"
    unfolding h by (rule decorated_token(3)[OF ts[rule_format, OF hd_in] ql qr])
  show "\<not> py_isspace (last (py_join sep ?xs))"
    unfolding l by (rule decorated_token(4)[OF ts[rule_format, OF last_in] ql qr])
  show "hd (py_join sep ?xs) \<noteq> CHR ''[''"
    unfolding h by (rule decorated_token(5)[OF ts[rule_format, OF hd_in] ql qr])
qed

lemma plain_token_strip: "plain_token t \<Longrightarrow> py_strip t = t"
proof -
  assume t: "plain_token t"
  have "py_strip ([] @ [] @ t @ []) = [] @ t @ []"
    by (rule strip_decorated[OF t]) simp_all
  then show ?thesis by simp
qed

lemma required_list:
  assumes ts: "\<forall>t \<in> set ts. plain_token t"
  shows "required_skills_set (SkillsList ts) = set (map py_lower ts)"
proof -
  have f: "filter (\<lambda>s. s \<noteq> []) ts = ts"
    by (rule filter_True) (use ts in \<open>auto simp: plain_token_def\<close>)
  have m: "map (\<lambda>s. py_lower (py_strip s)) ts = map py_lower ts"
    by (rule map_cong[OF refl]) (use ts plain_token_strip in simp)
  show ?thesis by (simp add: f m)
qed

lemma required_normalised:
  assumes ts: "\<forall>t \<in> set ts. plain_token t"
    and parts: "map (\<lambda>p. strip_where is_quote (py_strip p))
                  (filter (\<lambda>p. py_strip p \<noteq> []) (py_split_comma s)) = ts"
  shows "set (map py_lower (filter (\<lambda>p. p \<noteq> [])
           (map (\<lambda>p. strip_where is_quote (py_strip p))
              (filter (\<lambda>p. py_strip p \<noteq> []) (py_split_comma s))))) = set (map py_lower ts)"
proof -
  have f: "filter (\<lambda>s. s \<noteq> []) ts = ts"
    by (rule filter_True) (use ts in \<open>auto simp: plain_token_def\<close>)
  show ?thesis unfolding parts f ..
qed

lemma required_comma_string:
  assumes ts: "\<forall>t \<in> set ts. plain_token t" and ne: "ts \<noteq> []"
    and ql: "\<forall>c \<in> set ql. is_quote c" and qr: "\<forall>c \<in> set qr. is_quote c"
    and pad: "\<forall>c \<in> set pad. py_isspace c"
  shows "required_skills_set (SkillsStr (py_join (CHR '','' # pad) (map (\<lambda>t. ql @ t @ qr) ts)))
           = set (map py_lower ts)"
proof -
  let ?S = "py_join (CHR '','' # pad) (map (\<lambda>t. ql @ t @ qr) ts)"
  note e = joined_edges[OF ts ne ql qr, of "CHR '','' # pad"]
  have "strip_where py_isspace ([] @ ?S @ []) = ?S"
    by (rule strip_where_core) (use e in simp_all)
  then have strip: "py_strip ?S = ?S" by (simp add: py_strip_def)
  have nb: "\<not> (?S \<noteq> [] \<and> hd ?S = CHR ''['' \<and> last ?S = CHR '']'')" using e(4) by simp
  show ?thesis
    unfolding required_skills_set.simps Let_def strip if_not_P[OF nb]
    by (rule required_normalised[OF ts normalise_joined[OF ts ne ql qr pad]])
qed

lemma required_bracketed_string:
  assumes ts: "\<forall>t \<in> set ts. plain_token t" and ne: "ts \<noteq> []"
    and ql: "\<forall>c \<in> set ql. is_quote c" and qr: "\<forall>c \<in> set qr. is_quote c"
    and pad: "\<forall>c \<in> set pad. py_isspace c"
  shows "required_skills_set
           (SkillsStr (''['' @ py_join (CHR '','' # pad) (map (\<lambda>t. ql @ t @ qr) ts) @ '']''))
           = set (map py_lower ts)"
proof -
  let ?S = "py_join (CHR '','' # pad) (map (\<lambda>t. ql @ t @ qr) ts)"
  let ?B = "''['' @ ?S @ '']''"
  have "strip_where py_isspace ([] @ ?B @ []) = ?B"
    by (rule strip_where_core) (simp_all add: bracket_not_space)
  then have strip: "py_strip ?B = ?B" by (simp add: py_strip_def)
  have br: "?B \<noteq> [] \<and> hd ?B = CHR ''['' \<and> last ?B = CHR '']''" by simp
  have inner: "butlast (tl ?B) = ?S" by (simp add: butlast_append)
  show ?thesis
    unfolding required_skills_set.simps Let_def strip if_P[OF br] inner
    by (rule required_normalised[OF ts normalise_joined[OF ts ne ql qr pad]])
qed

lemma score_truthy:
  "skills_truthy a \<Longrightarrow>
   calculate_skill_match_score eng a =
     (if required_skills_set a = {} then 1 / 2
      else fdiv (of_nat (card (set (map (\<lambda>skill. py_lower (py_strip skill)) (skills eng))
                                \<inter> required_skills_set a)))
             (of_nat (card (required_skills_set a))))"
  unfolding calculate_skill_match_score_def Let_def by (simp only: not_True_eq_False if_False)

lemma score_falsy: "\<not> skills_truthy a \<Longrightarrow> calculate_skill_match_score eng a = 1 / 2"
  unfolding calculate_skill_match_score_def by (simp only: simp_thms if_True)

lemma score_of_set:
  assumes "skills_truthy a" "skills_truthy b" "required_skills_set a = required_skills_set b"
  shows "calculate_skill_match_score eng a = calculate_skill_match_score eng b"
  by (simp only: score_truthy[OF assms(1)] score_truthy[OF assms(2)] assms(3))

lemma score_empty_set:
  assumes "required_skills_set a = {}"
  shows "calculate_skill_match_score eng a = 1 / 2"
proof (cases "skills_truthy a")
  case True
  show ?thesis by (simp only: score_truthy[OF True] assms simp_thms if_True)
next
  case False
  then show ?thesis by (rule score_falsy)
qed

lemma empty_bracket_set: "required_skills_set (SkillsStr ''[]'') = {}"
  by code_simp


text \<open>
  Claim C6. Take a list of plain tokens (non-empty, without a comma, not beginning or ending
  with whitespace, a quote or a bracket). Its rendering as a comma-separated string, with
  any whitespace after the commas and any quotes around the tokens, and the same string
  inside one pair of brackets, give the same skill score as the list itself, for every
  engineer. Whenever the normalised set is empty the score is 1/2, as it is for
  \<open>None\<close>, the empty string and the empty list.
\<close>

theorem skill_score_same_for_three_shapes:
  assumes ts: "\<forall>t \<in> set ts. plain_token t"
    and pad: "\<forall>c \<in> set pad. py_isspace c"
    and ql: "\<forall>c \<in> set ql. is_quote c" and qr: "\<forall>c \<in> set qr. is_quote c"
  shows "calculate_skill_match_score eng
           (SkillsStr (py_join (CHR '','' # pad) (map (\<lambda>t. ql @ t @ qr) ts)))
           = calculate_skill_match_score eng (SkillsList ts)
       \<and> calculate_skill_match_score eng
           (SkillsStr (''['' @ py_join (CHR '','' # pad) (map (\<lambda>t. ql @ t @ qr) ts) @ '']''))
           = calculate_skill_match_score eng (SkillsList ts)
       \<and> (\<forall>req. required_skills_set req = {} \<longrightarrow> calculate_skill_match_score eng req = 1 / 2)
       \<and> calculate_skill_match_score eng SkillsNone = 1 / 2
       \<and> calculate_skill_match_score eng (SkillsStr []) = 1 / 2
       \<and> calculate_skill_match_score eng (SkillsList []) = 1 / 2"
proof -
  let ?S = "py_join (CHR '','' # pad) (map (\<lambda>t. ql @ t @ qr) ts)"
  have a: "calculate_skill_match_score eng (SkillsStr ?S)
             = calculate_skill_match_score eng (SkillsList ts)"
  proof (cases "ts = []")
    case True
    then have u: "\<not> skills_truthy (SkillsStr ?S)" and v: "\<not> skills_truthy (SkillsList ts)"
      by simp_all
    show ?thesis by (simp only: score_falsy[OF u] score_falsy[OF v])
  next
    case False
    have "skills_truthy (SkillsStr ?S)"
      using joined_edges(1)[OF ts False ql qr] by simp
    moreover have "skills_truthy (SkillsList ts)" using False by simp
    moreover have "required_skills_set (SkillsStr ?S) = required_skills_set (SkillsList ts)"
      using required_comma_string[OF ts False ql qr pad] required_list[OF ts] by simp
    ultimately show ?thesis by (rule score_of_set)
  qed
  have b: "calculate_skill_match_score eng (SkillsStr (''['' @ ?S @ '']''))
             = calculate_skill_match_score eng (SkillsList ts)"
  proof (cases "ts = []")
    case True
    then have e: "''['' @ ?S @ '']'' = ''[]''" by simp
    have v: "\<not> skills_truthy (SkillsList ts)" using True by simp
    show ?thesis
      unfolding e by (simp only: score_falsy[OF v] score_empty_set[OF empty_bracket_set])
  next
    case False
    have "skills_truthy (SkillsStr (''['' @ ?S @ '']''))" by simp
    moreover have "skills_truthy (SkillsList ts)" using False by simp
    moreover have "required_skills_set (SkillsStr (''['' @ ?S @ '']''))
                     = required_skills_set (SkillsList ts)"
      using required_bracketed_string[OF ts False ql qr pad] required_list[OF ts] by simp
    ultimately show ?thesis by (rule score_of_set)
  qed
  have c: "\<forall>req. required_skills_set req = {} \<longrightarrow> calculate_skill_match_score eng req = 1 / 2"
    using score_empty_set by blast
  have d: "calculate_skill_match_score eng SkillsNone = 1 / 2"
    "calculate_skill_match_score eng (SkillsStr []) = 1 / 2"
    "calculate_skill_match_score eng (SkillsList []) = 1 / 2"
    by (rule score_falsy, simp)+
  from a b c d show ?thesis by (intro conjI)
qed

theorem skill_score_same_for_three_shapes_witness:
  "calculate_skill_match_score eng_D (SkillsStr ''Database, Backend'')
     = calculate_skill_match_score eng_D (SkillsList [''Database'', ''Backend''])
   \<and> calculate_skill_match_score eng_D (SkillsStr ''[Database, Backend]'')
     = calculate_skill_match_score eng_D (SkillsList [''Database'', ''Backend''])
   \<and> calculate_skill_match_score eng_D (SkillsList [''Database'', ''Backend'']) = 1 / 2"
proof -
  have ts: "\<forall>t \<in> set [''Database'', ''Backend'']. plain_token t" by code_simp
  have pad: "\<forall>c \<in> set '' ''. py_isspace c" by code_simp
  have q: "\<forall>c \<in> set []. is_quote c" by simp
  have v: "calculate_skill_match_score eng_D (SkillsList [''Database'', ''Backend'']) = 1 / 2"
    by code_simp
  have e1: "py_join (CHR '','' # '' '') (map (\<lambda>t. [] @ t @ []) [''Database'', ''Backend''])
              = ''Database, Backend''"
    by simp
  have e2: "''['' @ ''Database, Backend'' @ '']'' = ''[Database, Backend]''"
    by simp
  note inst = skill_score_same_for_three_shapes[OF ts pad q q, of eng_D, unfolded e1 e2]
  from inst[THEN conjunct1] inst[THEN conjunct2, THEN conjunct1] v
  show ?thesis by (intro conjI)
qed

end
